theory Spec2Isabelle
  imports Complex_Main
begin

section \<open>Graph generation (notebook cell 11)\<close>

text \<open>
  The notebook keeps the graph in two numpy arrays \<open>l\<close> and \<open>u\<close> of shape \<open>(N, N)\<close>
  holding the lower and upper bound of every ordered pair of nodes. An array is modelled
  as a function on its indices; only indices below \<open>N\<close> are ever read or written, since
  every loop of the notebook runs over \<open>range(N)\<close>. The entries are small integers
  (at most \<open>M = 10000\<close>), far from the limits of numpy's 64-bit integers, so they are
  modelled as \<open>int\<close>.
\<close>

type_synonym matrix = "nat \<Rightarrow> nat \<Rightarrow> int"

text \<open>\<^verbatim>\<open>M = 10000 # a very large number\<close>\<close>

definition M :: int where
  "M = 10000"

text \<open>The assignment \<^verbatim>\<open>a[i][j] = v\<close>.\<close>

definition set_entry :: "matrix \<Rightarrow> nat \<Rightarrow> nat \<Rightarrow> int \<Rightarrow> matrix" where
  "set_entry a i j v = a(i := (a i)(j := v))"

text \<open>
  \<^verbatim>\<open>np.random.randint(low, high, size=(N,N))\<close> draws every entry from \<open>low, ..., high - 1\<close>.
  The draws themselves are inputs of the model; this predicate states their range.
\<close>

definition randint :: "int \<Rightarrow> int \<Rightarrow> nat \<Rightarrow> matrix \<Rightarrow> bool" where
  "randint low high N a = (\<forall>i<N. \<forall>j<N. low \<le> a i j \<and> a i j < high)"

text \<open>
  \<^verbatim>\<open>
  for i in range(N):
      l[i][i] = 0
      u[i][i] = 0
  \<close>
\<close>

definition zero_diagonal :: "nat \<Rightarrow> matrix \<times> matrix \<Rightarrow> matrix \<times> matrix" where
  "zero_diagonal N lu =
     fold (\<lambda>i (l, u). (set_entry l i i 0, set_entry u i i 0)) [0..<N] lu"

text \<open>
  \<^verbatim>\<open>
  for i in range(N):
      for j in range(N):
          if dummy[i][j] != 0:
              l[i][j] = M
              u[i][j] = M
  \<close>
\<close>

text \<open>The test \<^verbatim>\<open>dummy[i][j] != 0\<close> of the loop.\<close>

definition deletes :: "int \<Rightarrow> bool" where
  "deletes d = (d \<noteq> 0)"

definition delete_step :: "matrix \<Rightarrow> nat \<Rightarrow> nat \<Rightarrow> matrix \<times> matrix \<Rightarrow> matrix \<times> matrix" where
  "delete_step dummy i j lu =
     (case lu of (l, u) \<Rightarrow>
        if deletes (dummy i j) then (set_entry l i j M, set_entry u i j M) else (l, u))"

definition delete_arcs :: "nat \<Rightarrow> matrix \<Rightarrow> matrix \<times> matrix \<Rightarrow> matrix \<times> matrix" where
  "delete_arcs N dummy lu =
     fold (\<lambda>i. fold (\<lambda>j. delete_step dummy i j) [0..<N]) [0..<N] lu"

text \<open>
  The whole cell: from the three random draws \<open>l0\<close>, \<open>u0\<close> and \<open>dummy\<close> to the
  final pair of matrices.
\<close>

definition generate :: "nat \<Rightarrow> matrix \<Rightarrow> matrix \<Rightarrow> matrix \<Rightarrow> matrix \<times> matrix" where
  "generate N l0 u0 dummy = delete_arcs N dummy (zero_diagonal N (l0, u0))"

text \<open>
  \<^verbatim>\<open>dummy = np.random.randint(low=0, high=10, size=(N,N))\<close>: every entry of \<open>dummy\<close> is
  drawn uniformly from the ten values below. The share of these values for which the loop
  keeps an arc is the probability that a given arc is kept.
\<close>

definition dummy_values :: "int list" where
  "dummy_values = [0..9]"

definition keep_probability :: real where
  "keep_probability =
     real (length (filter (\<lambda>d. \<not> deletes d) dummy_values)) / real (length dummy_values)"

section \<open>The docplex model (notebook cells 13 and 14)\<close>

text \<open>
  \<open>Yvar i j\<close> is the binary variable \<^verbatim>\<open>Y[i,j]\<close>, \<open>Xvar j\<close> the continuous variable
  \<^verbatim>\<open>X[j]\<close>.
\<close>

datatype var = Yvar nat nat | Xvar nat

text \<open>Linear expressions as the notebook writes them; \<open>Sum\<close> is \<^verbatim>\<open>m.sum(...)\<close>.\<close>

datatype expr =
    Var var
  | Const int
  | Add expr expr
  | Sub expr expr
  | Mul int expr
  | Sum "expr list"

datatype constr = Le expr expr | Eq expr expr

datatype sense = Minimize | Maximize

record model =
  binary_vars :: "var list"
  continuous_vars :: "var list"
  objective_sense :: sense
  objective_expr :: expr
  constraints :: "constr list"
  benders_strategy :: "int option"

datatype error = KeyError | AssertionError

text \<open>\<^verbatim>\<open>m = Model(name='benders', log_output=True)\<close>: an empty model, default parameters.\<close>

definition Model :: model where
  "Model = \<lparr>binary_vars = [], continuous_vars = [], objective_sense = Minimize,
            objective_expr = Const 0, constraints = [], benders_strategy = None\<rparr>"

definition binary_var_dict :: "(nat \<times> nat) list \<Rightarrow> model \<Rightarrow> model" where
  "binary_var_dict keys m = m\<lparr>binary_vars := binary_vars m @ map (\<lambda>(i, j). Yvar i j) keys\<rparr>"

definition continuous_var_dict :: "nat \<Rightarrow> model \<Rightarrow> model" where
  "continuous_var_dict N m = m\<lparr>continuous_vars := continuous_vars m @ map Xvar [0..<N]\<rparr>"

definition minimize :: "expr \<Rightarrow> model \<Rightarrow> model" where
  "minimize e m = m\<lparr>objective_sense := Minimize, objective_expr := e\<rparr>"

definition add_constraint :: "constr \<Rightarrow> model \<Rightarrow> model" where
  "add_constraint c m = m\<lparr>constraints := constraints m @ [c]\<rparr>"

definition add_constraints :: "constr list \<Rightarrow> model \<Rightarrow> model" where
  "add_constraints cs m = m\<lparr>constraints := constraints m @ cs\<rparr>"

text \<open>
  The expression \<^verbatim>\<open>m.sum(Y[j,k] for k in range(N)) - m.sum(Y[i,j] for i in range(N))\<close>
  that the three flux constraints share.
\<close>

definition flux :: "nat \<Rightarrow> nat \<Rightarrow> expr" where
  "flux N j = Sub (Sum (map (\<lambda>k. Var (Yvar j k)) [0..<N]))
                  (Sum (map (\<lambda>i. Var (Yvar i j)) [0..<N]))"

text \<open>
  Cells 13 and 14. \<^verbatim>\<open>Y\<close> and \<^verbatim>\<open>X\<close> are Python dictionaries with keys
  \<open>(i, j)\<close>, \<open>i, j < N\<close>, and \<open>j < N\<close>: reading \<^verbatim>\<open>X[t]\<close> (in the objective) or
  \<^verbatim>\<open>X[s]\<close> (in the first constraint) at a node that is not a key raises
  \<^verbatim>\<open>KeyError\<close>. Nodes are natural numbers here; a negative node is no key either.
  Every other index is produced by \<^verbatim>\<open>range(N)\<close>.
\<close>

definition build_model :: "nat \<Rightarrow> matrix \<Rightarrow> matrix \<Rightarrow> nat \<Rightarrow> nat \<Rightarrow> error + model" where
  "build_model N l u s t =
     (if \<not> t < N then Inl KeyError
      else if \<not> s < N then Inl KeyError
      else
        let m = Model;
            m = binary_var_dict [(i, j). i \<leftarrow> [0..<N], j \<leftarrow> [0..<N]] m;
            m = continuous_var_dict N m;
            m = minimize (Sub (Sum [Mul (u i j) (Var (Yvar i j)). i \<leftarrow> [0..<N], j \<leftarrow> [0..<N]])
                              (Var (Xvar t))) m;
            m = add_constraint (Eq (Var (Xvar s)) (Const 0)) m;
            m = add_constraints
                  [Le (Var (Xvar j))
                      (Add (Add (Var (Xvar i)) (Const (l i j)))
                           (Mul (u i j - l i j) (Var (Yvar i j)))).
                   i \<leftarrow> [0..<N], j \<leftarrow> [0..<N]] m;
            m = add_constraint (Eq (flux N s) (Const 1)) m;
            m = add_constraint (Eq (flux N t) (Const (- 1))) m;
            m = fold (\<lambda>j m. if j \<noteq> s \<and> j \<noteq> t
                             then add_constraint (Eq (flux N j) (Const 0)) m else m)
                     [0..<N] m
        in Inr m)"

subsection \<open>What a model means\<close>

text \<open>
  An assignment gives every variable a value. The solver works in floating point; the
  model is read over the reals.
\<close>

type_synonym assignment = "var \<Rightarrow> real"

fun eval :: "assignment \<Rightarrow> expr \<Rightarrow> real" where
  "eval a (Var v) = a v"
| "eval a (Const c) = real_of_int c"
| "eval a (Add e1 e2) = eval a e1 + eval a e2"
| "eval a (Sub e1 e2) = eval a e1 - eval a e2"
| "eval a (Mul c e) = real_of_int c * eval a e"
| "eval a (Sum es) = sum_list (map (eval a) es)"

fun holds :: "assignment \<Rightarrow> constr \<Rightarrow> bool" where
  "holds a (Le e1 e2) = (eval a e1 \<le> eval a e2)"
| "holds a (Eq e1 e2) = (eval a e1 = eval a e2)"

text \<open>
  A binary variable is 0 or 1. A docplex continuous variable has lower bound 0 and no
  upper bound unless told otherwise, and the notebook passes neither.
\<close>

definition feasible :: "model \<Rightarrow> assignment \<Rightarrow> bool" where
  "feasible m a =
     (list_all (\<lambda>v. a v = 0 \<or> a v = 1) (binary_vars m) \<and>
      list_all (\<lambda>v. 0 \<le> a v) (continuous_vars m) \<and>
      list_all (holds a) (constraints m))"

definition objective_value :: "model \<Rightarrow> assignment \<Rightarrow> real" where
  "objective_value m a = eval a (objective_expr m)"

definition better_eq :: "sense \<Rightarrow> real \<Rightarrow> real \<Rightarrow> bool" where
  "better_eq sn x y = (case sn of Minimize \<Rightarrow> x \<le> y | Maximize \<Rightarrow> y \<le> x)"

definition optimal :: "model \<Rightarrow> assignment \<Rightarrow> bool" where
  "optimal m a =
     (feasible m a \<and>
      (\<forall>a'. feasible m a' \<longrightarrow>
         better_eq (objective_sense m) (objective_value m a) (objective_value m a')))"

subsection \<open>The rest of the notebook (cells 18 to 29)\<close>

text \<open>
  \<^verbatim>\<open>
  msol = m.solve()
  assert msol is not None, "model can't solve"
  obj1 = m.objective_value
  m.parameters.benders.strategy = 3
  msol = m.solve(clean_before_solve=True)
  assert msol is not None, "model can't solve"
  \<close>
  \<^verbatim>\<open>m.solve()\<close> hands the model to CPLEX, which is not part of the repository. What
  CPLEX answers is an input here: \<open>msol1\<close> for the model as built, \<open>msol2\<close> for the model
  with the Benders strategy set, each an assignment or \<^verbatim>\<open>None\<close>. A solve returns
  \<^verbatim>\<open>None\<close> when CPLEX finds no solution or fails; of the Benders strategy the notebook's
  own text says that CPLEX raises an error at solve time when the problem does not match
  the decomposition. Nothing is assumed of the two answers. The result is the pair of
  objective values that the two calls of \<^verbatim>\<open>m.report()\<close> print.
\<close>

definition set_benders_strategy :: "int \<Rightarrow> model \<Rightarrow> model" where
  "set_benders_strategy k m = m\<lparr>benders_strategy := Some k\<rparr>"

definition notebook ::
  "nat \<Rightarrow> matrix \<Rightarrow> matrix \<Rightarrow> nat \<Rightarrow> nat \<Rightarrow> assignment option \<Rightarrow> assignment option
     \<Rightarrow> error + real \<times> real" where
  "notebook N l u s t msol1 msol2 =
     (case build_model N l u s t of
        Inl e \<Rightarrow> Inl e
      | Inr m \<Rightarrow>
          (case msol1 of
             None \<Rightarrow> Inl AssertionError
           | Some a1 \<Rightarrow>
               let obj1 = objective_value m a1;
                   m' = set_benders_strategy 3 m
               in (case msol2 of
                     None \<Rightarrow> Inl AssertionError
                   | Some a2 \<Rightarrow> Inr (obj1, objective_value m' a2))))"

section \<open>Notions of the specification\<close>

text \<open>The net outflow of \<open>Y\<close> at node \<open>j\<close>, and flow conservation from \<open>s\<close> to \<open>t\<close>.\<close>

definition netout :: "nat \<Rightarrow> assignment \<Rightarrow> nat \<Rightarrow> real" where
  "netout N a j = (\<Sum>k<N. a (Yvar j k)) - (\<Sum>i<N. a (Yvar i j))"

definition flow_conservation :: "nat \<Rightarrow> nat \<Rightarrow> nat \<Rightarrow> assignment \<Rightarrow> bool" where
  "flow_conservation N s t a =
     (netout N a s = 1 \<and> netout N a t = - 1 \<and>
      (\<forall>j<N. j \<noteq> s \<longrightarrow> j \<noteq> t \<longrightarrow> netout N a j = 0))"

text \<open>The sum of \<open>upper\<^sub>i\<^sub>j \<cdot> Y\<^sub>i\<^sub>j\<close> over all ordered pairs of nodes.\<close>

definition upper_cost :: "nat \<Rightarrow> matrix \<Rightarrow> assignment \<Rightarrow> real" where
  "upper_cost N u a = (\<Sum>i<N. \<Sum>j<N. real_of_int (u i j) * a (Yvar i j))"

text \<open>The distance constraint of the pair \<open>(i, j)\<close>.\<close>

definition distance_ok :: "matrix \<Rightarrow> matrix \<Rightarrow> assignment \<Rightarrow> nat \<Rightarrow> nat \<Rightarrow> bool" where
  "distance_ok l u a i j =
     (a (Xvar j) \<le> a (Xvar i) + real_of_int (l i j) + real_of_int (u i j - l i j) * a (Yvar i j))"

text \<open>The domains of the variables: \<open>Y\<close> binary, \<open>X\<close> non-negative.\<close>

definition domains_ok :: "nat \<Rightarrow> assignment \<Rightarrow> bool" where
  "domains_ok N a =
     ((\<forall>i<N. \<forall>j<N. a (Yvar i j) = 0 \<or> a (Yvar i j) = 1) \<and> (\<forall>j<N. 0 \<le> a (Xvar j)))"

text \<open>
  Walks. A walk is the list of the nodes it visits, all below \<open>N\<close>; its cost under a cost
  matrix is the sum over its consecutive pairs. In the notebook every ordered pair of
  nodes carries bounds (a deleted arc carries \<open>M\<close>), so every list of nodes is a walk of the
  model; \<open>arcs_exist\<close> singles out the walks that use no deleted arc.
\<close>

definition is_walk :: "nat \<Rightarrow> nat \<Rightarrow> nat list \<Rightarrow> nat \<Rightarrow> bool" where
  "is_walk N s w j = (w \<noteq> [] \<and> hd w = s \<and> last w = j \<and> list_all (\<lambda>v. v < N) w)"

fun walk_cost :: "(nat \<Rightarrow> nat \<Rightarrow> real) \<Rightarrow> nat list \<Rightarrow> real" where
  "walk_cost c (i # j # w) = c i j + walk_cost c (j # w)"
| "walk_cost c w = 0"

definition arc_exists :: "matrix \<Rightarrow> matrix \<Rightarrow> nat \<Rightarrow> nat \<Rightarrow> bool" where
  "arc_exists l u i j = (\<not> (l i j = M \<and> u i j = M))"

fun arcs_exist :: "matrix \<Rightarrow> matrix \<Rightarrow> nat list \<Rightarrow> bool" where
  "arcs_exist l u (i # j # w) = (arc_exists l u i j \<and> arcs_exist l u (j # w))"
| "arcs_exist l u w = True"

text \<open>
  The effective cost of the pair \<open>(i, j)\<close> under the scenario of an assignment: the upper
  bound if \<open>Y[i,j] = 1\<close>, the lower bound otherwise.
\<close>

definition scenario_cost :: "matrix \<Rightarrow> matrix \<Rightarrow> assignment \<Rightarrow> nat \<Rightarrow> nat \<Rightarrow> real" where
  "scenario_cost l u a i j = real_of_int (if a (Yvar i j) = 1 then u i j else l i j)"

text \<open>
  \<open>d\<close> is the shortest-path distance from \<open>s\<close> to \<open>j\<close> under the cost matrix \<open>c\<close>: some
  walk from \<open>s\<close> to \<open>j\<close> costs \<open>d\<close>, and none costs less.
\<close>

definition shortest_distance :: "nat \<Rightarrow> (nat \<Rightarrow> nat \<Rightarrow> real) \<Rightarrow> nat \<Rightarrow> nat \<Rightarrow> real \<Rightarrow> bool" where
  "shortest_distance N c s j d =
     ((\<exists>w. is_walk N s w j \<and> walk_cost c w = d) \<and>
      (\<forall>w. is_walk N s w j \<longrightarrow> d \<le> walk_cost c w))"

text \<open>
  An assignment is optimal for its own scenario when no feasible assignment with the same
  values of \<open>Y\<close> has a better objective value. An optimal assignment is.
\<close>

definition same_scenario :: "nat \<Rightarrow> assignment \<Rightarrow> assignment \<Rightarrow> bool" where
  "same_scenario N a a' = (\<forall>i<N. \<forall>j<N. a' (Yvar i j) = a (Yvar i j))"

definition optimal_for_scenario :: "nat \<Rightarrow> model \<Rightarrow> assignment \<Rightarrow> bool" where
  "optimal_for_scenario N m a =
     (feasible m a \<and>
      (\<forall>a'. feasible m a' \<and> same_scenario N a a' \<longrightarrow>
         better_eq (objective_sense m) (objective_value m a) (objective_value m a')))"

text \<open>
  The assignment that selects the pair \<open>(s, t)\<close> alone and gives \<open>t\<close> the distance \<open>x\<close>
  and every other node the distance 0.
\<close>

definition direct_assignment :: "nat \<Rightarrow> nat \<Rightarrow> real \<Rightarrow> assignment" where
  "direct_assignment s t x =
     (\<lambda>v. case v of Yvar i j \<Rightarrow> if i = s \<and> j = t then 1 else 0
                   | Xvar j \<Rightarrow> if j = t then x else 0)"

section \<open>Small instances\<close>

text \<open>
  Two nodes, source 0 and target 1. The draws keep the arc \<open>0 \<rightarrow> 1\<close> and the self-loop
  of node 1, and delete the arc \<open>1 \<rightarrow> 0\<close> and the self-loop of node 0.
\<close>

definition ex_l0 :: matrix where
  "ex_l0 = (\<lambda>i j. 3)"

definition ex_u0 :: matrix where
  "ex_u0 = (\<lambda>i j. 25)"

definition ex_dummy :: matrix where
  "ex_dummy = (\<lambda>i j. if j = 0 then 7 else 0)"

definition ex_l :: matrix where
  "ex_l = fst (generate 2 ex_l0 ex_u0 ex_dummy)"

definition ex_u :: matrix where
  "ex_u = snd (generate 2 ex_l0 ex_u0 ex_dummy)"

definition ex_model :: model where
  "ex_model = projr (build_model 2 ex_l ex_u 0 1)"

text \<open>Take the arc \<open>0 \<rightarrow> 1\<close>; the distance of node 1 is its upper bound.\<close>

definition ex_sol :: assignment where
  "ex_sol = direct_assignment 0 1 25"

text \<open>
  Two nodes with every draw of \<open>dummy\<close> non-zero: every arc is deleted, and no arc leads
  from the source 0 to the target 1.
\<close>

definition dead_dummy :: matrix where
  "dead_dummy = (\<lambda>i j. 7)"

definition dead_l :: matrix where
  "dead_l = fst (generate 2 ex_l0 ex_u0 dead_dummy)"

definition dead_u :: matrix where
  "dead_u = snd (generate 2 ex_l0 ex_u0 dead_dummy)"

definition dead_model :: model where
  "dead_model = projr (build_model 2 dead_l dead_u 0 1)"

text \<open>Select the deleted pair \<open>(0, 1)\<close>; the distance of node 1 is its bound \<open>M\<close>.\<close>

definition dead_sol :: assignment where
  "dead_sol = direct_assignment 0 1 (real_of_int M)"

text \<open>
  Three nodes, source 0 and target 2, with the arcs \<open>0 \<rightarrow> 1\<close> (bounds 5 and 25) and
  \<open>0 \<rightarrow> 2\<close> (bounds 3 and 21); every other arc is deleted, the diagonal is 0.
\<close>

definition ex3_l :: matrix where
  "ex3_l = (\<lambda>i j. if i = j then 0 else if i = 0 \<and> j = 1 then 5 else if i = 0 \<and> j = 2 then 3 else M)"

definition ex3_u :: matrix where
  "ex3_u = (\<lambda>i j. if i = j then 0 else if i = 0 \<and> j = 1 then 25 else if i = 0 \<and> j = 2 then 21 else M)"

definition ex3_model :: model where
  "ex3_model = projr (build_model 3 ex3_l ex3_u 0 2)"

text \<open>Take the arc \<open>0 \<rightarrow> 2\<close>; node 2 gets distance 21, node 1 distance 0.\<close>

definition ex3_sol :: assignment where
  "ex3_sol = direct_assignment 0 2 21"

section \<open>The instance of the notebook\<close>

text \<open>
  With \<^verbatim>\<open>np.random.seed(1234)\<close>, \<^verbatim>\<open>N = 20\<close>, \<^verbatim>\<open>s = 0\<close> and \<^verbatim>\<open>t = 4\<close> the
  generation cell prints the two matrices below (rows in order, 20 entries each). They
  are taken from the printed output: the model does not reproduce numpy's generator.
\<close>

definition l_rows :: "int list list" where
  "l_rows = [
      [10000, 10000, 10000, 10000, 10000, 2, 10000, 10000, 10000, 10000,
       10000, 10000, 10000, 10000, 1, 10000, 10000, 7, 10000, 10000],
      [10000, 10000, 10000, 10000, 10000, 10000, 4, 10000, 10000, 8,
       10000, 10000, 10000, 10000, 10000, 10000, 10000, 10000, 10000, 10000],
      [10000, 10000, 10000, 10000, 10000, 2, 10000, 10000, 10000, 10000,
       10000, 10000, 5, 10000, 10000, 7, 10000, 10000, 10000, 10000],
      [10000, 10000, 8, 10000, 10000, 10000, 10000, 10000, 10000, 10000,
       10000, 2, 10000, 10000, 10000, 10000, 10000, 10000, 10000, 10000],
      [10000, 10000, 10000, 10000, 10000, 10000, 4, 10000, 10000, 10000,
       10000, 10000, 10000, 10000, 9, 10000, 10000, 10000, 10000, 10000],
      [3, 10000, 10000, 10000, 10000, 10000, 10000, 10000, 10000, 10000,
       10000, 10000, 10000, 10000, 10000, 10000, 10000, 10000, 5, 10000],
      [10000, 10000, 10000, 10000, 2, 10000, 10000, 4, 10000, 10000,
       10000, 10000, 10000, 10000, 10000, 10000, 10000, 10000, 10000, 10000],
      [10000, 7, 10000, 10000, 10000, 10000, 2, 10000, 10000, 10000,
       10000, 10000, 10000, 10000, 10000, 10000, 10000, 10000, 10000, 10000],
      [10000, 10000, 10000, 2, 5, 10000, 10000, 10000, 10000, 10000,
       10000, 4, 10000, 10000, 10000, 3, 10000, 10000, 10000, 10000],
      [10000, 8, 10000, 10000, 10000, 10000, 10000, 10000, 10000, 0,
       2, 10000, 10000, 10000, 10000, 10000, 10000, 10000, 10000, 10000],
      [10000, 10000, 10000, 10000, 10000, 10000, 10000, 10000, 1, 10000,
       10000, 10000, 10000, 10000, 10000, 10000, 10000, 10000, 10000, 10000],
      [10000, 7, 10000, 10000, 10000, 10000, 10000, 10000, 10000, 1,
       10000, 10000, 5, 10000, 10000, 10000, 10000, 8, 10000, 10000],
      [10000, 10000, 10000, 10000, 10000, 2, 10000, 10000, 10000, 10000,
       10000, 2, 10000, 10000, 10000, 10000, 10000, 4, 6, 5],
      [10000, 10000, 10000, 10000, 10000, 10000, 10000, 10000, 10000, 10000,
       10000, 10000, 10000, 10000, 10000, 4, 10000, 10000, 10000, 10000],
      [2, 10000, 10000, 10000, 10000, 10000, 10000, 10000, 10000, 10000,
       10000, 2, 10000, 10000, 10000, 10000, 3, 10000, 10000, 10000],
      [10000, 10000, 10000, 10000, 10000, 10000, 10000, 10000, 10000, 10000,
       10000, 10000, 10000, 10000, 10000, 0, 10000, 10000, 10000, 10000],
      [10000, 10000, 10000, 10000, 10000, 9, 10000, 10000, 10000, 10000,
       10000, 6, 10000, 10000, 10000, 10000, 10000, 10000, 10000, 2],
      [10000, 10000, 3, 10000, 10000, 10000, 10000, 10000, 8, 10000,
       10000, 10000, 10000, 10000, 10000, 10000, 10000, 0, 10000, 9],
      [10000, 10000, 10000, 10000, 10000, 10000, 10000, 10000, 10000, 10000,
       10000, 10000, 10000, 10000, 10000, 10000, 10000, 10000, 10000, 10000],
      [10000, 10000, 10000, 10000, 4, 10000, 10000, 10000, 4, 10000,
       10000, 10000, 5, 10000, 10000, 10000, 10000, 10000, 10000, 0]]"

definition u_rows :: "int list list" where
  "u_rows = [
      [10000, 10000, 10000, 10000, 10000, 27, 10000, 10000, 10000, 10000,
       10000, 10000, 10000, 10000, 20, 10000, 10000, 21, 10000, 10000],
      [10000, 10000, 10000, 10000, 10000, 10000, 26, 10000, 10000, 21,
       10000, 10000, 10000, 10000, 10000, 10000, 10000, 10000, 10000, 10000],
      [10000, 10000, 10000, 10000, 10000, 29, 10000, 10000, 10000, 10000,
       10000, 10000, 25, 10000, 10000, 25, 10000, 10000, 10000, 10000],
      [10000, 10000, 27, 10000, 10000, 10000, 10000, 10000, 10000, 10000,
       10000, 21, 10000, 10000, 10000, 10000, 10000, 10000, 10000, 10000],
      [10000, 10000, 10000, 10000, 10000, 10000, 25, 10000, 10000, 10000,
       10000, 10000, 10000, 10000, 29, 10000, 10000, 10000, 10000, 10000],
      [24, 10000, 10000, 10000, 10000, 10000, 10000, 10000, 10000, 10000,
       10000, 10000, 10000, 10000, 10000, 10000, 10000, 10000, 27, 10000],
      [10000, 10000, 10000, 10000, 25, 10000, 10000, 26, 10000, 10000,
       10000, 10000, 10000, 10000, 10000, 10000, 10000, 10000, 10000, 10000],
      [10000, 25, 10000, 10000, 10000, 10000, 22, 10000, 10000, 10000,
       10000, 10000, 10000, 10000, 10000, 10000, 10000, 10000, 10000, 10000],
      [10000, 10000, 10000, 22, 26, 10000, 10000, 10000, 10000, 10000,
       10000, 25, 10000, 10000, 10000, 25, 10000, 10000, 10000, 10000],
      [10000, 23, 10000, 10000, 10000, 10000, 10000, 10000, 10000, 0,
       24, 10000, 10000, 10000, 10000, 10000, 10000, 10000, 10000, 10000],
      [10000, 10000, 10000, 10000, 10000, 10000, 10000, 10000, 25, 10000,
       10000, 10000, 10000, 10000, 10000, 10000, 10000, 10000, 10000, 10000],
      [10000, 26, 10000, 10000, 10000, 10000, 10000, 10000, 10000, 21,
       10000, 10000, 28, 10000, 10000, 10000, 10000, 29, 10000, 10000],
      [10000, 10000, 10000, 10000, 10000, 25, 10000, 10000, 10000, 10000,
       10000, 20, 10000, 10000, 10000, 10000, 10000, 28, 28, 20],
      [10000, 10000, 10000, 10000, 10000, 10000, 10000, 10000, 10000, 10000,
       10000, 10000, 10000, 10000, 10000, 26, 10000, 10000, 10000, 10000],
      [28, 10000, 10000, 10000, 10000, 10000, 10000, 10000, 10000, 10000,
       10000, 22, 10000, 10000, 10000, 10000, 22, 10000, 10000, 10000],
      [10000, 10000, 10000, 10000, 10000, 10000, 10000, 10000, 10000, 10000,
       10000, 10000, 10000, 10000, 10000, 0, 10000, 10000, 10000, 10000],
      [10000, 10000, 10000, 10000, 10000, 24, 10000, 10000, 10000, 10000,
       10000, 23, 10000, 10000, 10000, 10000, 10000, 10000, 10000, 24],
      [10000, 10000, 23, 10000, 10000, 10000, 10000, 10000, 22, 10000,
       10000, 10000, 10000, 10000, 10000, 10000, 10000, 0, 10000, 24],
      [10000, 10000, 10000, 10000, 10000, 10000, 10000, 10000, 10000, 10000,
       10000, 10000, 10000, 10000, 10000, 10000, 10000, 10000, 10000, 10000],
      [10000, 10000, 10000, 10000, 20, 10000, 10000, 10000, 24, 10000,
       10000, 10000, 27, 10000, 10000, 10000, 10000, 10000, 10000, 0]]"

definition l_nb :: matrix where
  "l_nb = (\<lambda>i j. l_rows ! i ! j)"

definition u_nb :: matrix where
  "u_nb = (\<lambda>i j. u_rows ! i ! j)"


text \<open>
  An assignment with integer values, given by a matrix for \<open>Y\<close> and a vector for \<open>X\<close>.
\<close>

definition int_assignment :: "(nat \<Rightarrow> nat \<Rightarrow> int) \<Rightarrow> (nat \<Rightarrow> int) \<Rightarrow> assignment" where
  "int_assignment Y X =
     (\<lambda>v. case v of Yvar i j \<Rightarrow> real_of_int (Y i j) | Xvar j \<Rightarrow> real_of_int (X j))"




section \<open>Checking feasibility and lower bounds by computation\<close>

text \<open>
  Feasibility of an assignment with integer values, as a computation over \<open>range(N)\<close>:
  the domains and the distance constraint of every pair, \<open>X[s] = 0\<close>, and the net outflow
  of every node.
\<close>

definition netout_int :: "nat \<Rightarrow> (nat \<Rightarrow> nat \<Rightarrow> int) \<Rightarrow> nat \<Rightarrow> int" where
  "netout_int N Y j = sum_list (map (\<lambda>k. Y j k) [0..<N]) - sum_list (map (\<lambda>i. Y i j) [0..<N])"











section \<open>The Benders loop of the specification\<close>

text \<open>
  Modelled from the spec: the Benders loop of sections 3 and 4.2 to 4.5, with the errors
  of section 7. The repository's own loop (\<^verbatim>\<open>robust_shortest_path.py\<close>, named in the
  README) is not among the sources, and the notebook leaves the decomposition to CPLEX.
  As section 4.1 allows and the notebook does, a missing arc is a pair with the bounds
  \<open>(M, M)\<close>, so a scenario ranges over all ordered pairs of nodes.
\<close>

type_synonym scenario = "nat \<Rightarrow> nat \<Rightarrow> int"

text \<open>
  Modelled from the spec: the effective cost \<open>c\<^sub>i\<^sub>j = upper\<^sub>i\<^sub>j\<close> if \<open>Y[i][j] = 1\<close>, else
  \<open>lower\<^sub>i\<^sub>j\<close> (section 4.2).
\<close>

definition effective_cost :: "matrix \<Rightarrow> matrix \<Rightarrow> scenario \<Rightarrow> nat \<Rightarrow> nat \<Rightarrow> real" where
  "effective_cost l u Y i j = real_of_int (if Y i j = 1 then u i j else l i j)"

text \<open>
  Modelled from the spec: a cut (sections 3, 4.2 and 4.3): an inequality that bounds
  \<open>\<eta>\<close>, the estimate of \<open>x\<^sub>t\<close>, from above by a linear function of \<open>Y\<close>. Section 4.2
  says where it comes from: the potentials \<open>x\<close> of a subproblem certify that the
  constraints \<open>x\<^sub>j \<le> x\<^sub>i + lower\<^sub>i\<^sub>j + (upper\<^sub>i\<^sub>j - lower\<^sub>i\<^sub>j) \<cdot> Y\<^sub>i\<^sub>j\<close> are tight along the
  shortest-path tree. Added up along the tree's path from \<open>s\<close> to \<open>t\<close> they bound \<open>x\<^sub>t\<close>,
  for every \<open>Y\<close>, by the sum of \<open>lower\<^sub>i\<^sub>j + (upper\<^sub>i\<^sub>j - lower\<^sub>i\<^sub>j) \<cdot> Y\<^sub>i\<^sub>j\<close> over the arcs of
  the path, and the cut bounds \<open>\<eta>\<close> by the same sum. A cut is recorded as that path;
  \<open>cut_rhs\<close> is its right-hand side. The README has the same cut, one per extreme point
  \<open>w\<close> of the shortest-path problem. The formula \<open>\<eta> \<le> \<Sum> u\<^sub>i\<^sub>j \<cdot> Y\<^sub>i\<^sub>j - x\<^sub>t\<close> that section 3
  adds in brackets bounds \<open>\<eta>\<close> by a candidate objective, not the estimate of \<open>x\<^sub>t\<close>; it
  does not fit the master of section 4.3 and is not the cut modelled here.
\<close>

type_synonym cut = "nat list"

definition cut_rhs :: "matrix \<Rightarrow> matrix \<Rightarrow> scenario \<Rightarrow> cut \<Rightarrow> real" where
  "cut_rhs l u Y w =
     walk_cost (\<lambda>i j. real_of_int (l i j) + real_of_int (u i j - l i j) * real_of_int (Y i j)) w"

text \<open>
  Modelled from the spec: the constraints of the master on \<open>Y\<close> (section 4.3):
  \<open>Y\<^sub>i\<^sub>j \<in> {0, 1}\<close>, and the net outflow of \<open>Y\<close> is \<open>+1\<close> at \<open>s\<close>, \<open>-1\<close> at \<open>t\<close> and 0
  at every other node.
\<close>

definition is_flow :: "nat \<Rightarrow> nat \<Rightarrow> nat \<Rightarrow> scenario \<Rightarrow> bool" where
  "is_flow N s t Y =
     (list_all (\<lambda>i. list_all (\<lambda>j. Y i j = 0 \<or> Y i j = 1) [0..<N]) [0..<N] \<and>
      netout_int N Y s = 1 \<and> netout_int N Y t = - 1 \<and>
      list_all (\<lambda>j. j = s \<or> j = t \<or> netout_int N Y j = 0) [0..<N])"

text \<open>Modelled from the spec: the sum of \<open>upper\<^sub>i\<^sub>j \<cdot> Y\<^sub>i\<^sub>j\<close> over all pairs.\<close>

definition upper_sum :: "nat \<Rightarrow> matrix \<Rightarrow> scenario \<Rightarrow> real" where
  "upper_sum N u Y = (\<Sum>i<N. \<Sum>j<N. real_of_int (u i j) * real_of_int (Y i j))"

text \<open>
  Modelled from the spec: the master program (section 4.3). Its variables are \<open>Y\<close> and
  the scalar \<open>\<eta>\<close>; its constraints are flow conservation and every cut of the store,
  each bounding \<open>\<eta>\<close> from above; its objective, to be minimised, is
  \<open>\<Sum> upper\<^sub>i\<^sub>j \<cdot> Y\<^sub>i\<^sub>j - \<eta>\<close>.
\<close>

definition master_feasible ::
  "nat \<Rightarrow> matrix \<Rightarrow> matrix \<Rightarrow> nat \<Rightarrow> nat \<Rightarrow> cut list \<Rightarrow> scenario \<Rightarrow> real \<Rightarrow> bool" where
  "master_feasible N l u s t cuts Y \<eta> =
     (is_flow N s t Y \<and> list_all (\<lambda>w. \<eta> \<le> cut_rhs l u Y w) cuts)"

definition master_objective :: "nat \<Rightarrow> matrix \<Rightarrow> scenario \<Rightarrow> real \<Rightarrow> real" where
  "master_objective N u Y \<eta> = upper_sum N u Y - \<eta>"

text \<open>
  Modelled from the spec: what the Master Builder hands back (sections 4.3 and 6): a
  scenario with the master's objective value, or a signal of unboundedness or of
  infeasibility. The specification does not say how a pass goes on after a signal of
  unboundedness; here the Master Builder still proposes a scenario, and there is no
  value \<open>Z_master\<close>.
\<close>

datatype master_answer = OPTIMAL scenario real | UNBOUNDED scenario | INFEASIBLE

text \<open>
  Modelled from the spec: the contract of the solver oracle behind the Master Builder
  (section 6). \<open>OPTIMAL Y Z\<close> is an optimal solution of the master program with the given
  cuts and its objective value; \<open>UNBOUNDED Y\<close> says that the program has values below
  every bound, with \<open>Y\<close> a flow; \<open>INFEASIBLE\<close> that the program has no solution.
\<close>

definition master_ok ::
  "nat \<Rightarrow> matrix \<Rightarrow> matrix \<Rightarrow> nat \<Rightarrow> nat \<Rightarrow> cut list \<Rightarrow> master_answer \<Rightarrow> bool" where
  "master_ok N l u s t cuts ans =
     (case ans of
        OPTIMAL Y Z \<Rightarrow>
          (\<exists>\<eta>. master_feasible N l u s t cuts Y \<eta> \<and> Z = master_objective N u Y \<eta>) \<and>
          (\<forall>Y' \<eta>'. master_feasible N l u s t cuts Y' \<eta>' \<longrightarrow> Z \<le> master_objective N u Y' \<eta>')
      | UNBOUNDED Y \<Rightarrow>
          is_flow N s t Y \<and>
          (\<forall>B. \<exists>Y' \<eta>'. master_feasible N l u s t cuts Y' \<eta>' \<and> master_objective N u Y' \<eta>' < B)
      | INFEASIBLE \<Rightarrow> \<not> (\<exists>Y \<eta>. master_feasible N l u s t cuts Y \<eta>))"

text \<open>
  Modelled from the spec: what the Subproblem Solver hands back (section 4.2): the
  potential vector \<open>x\<close>, and the path from \<open>s\<close> to \<open>t\<close> in the shortest-path tree, from
  which the next cut is formed.
\<close>

record sub_answer =
  potential :: "nat \<Rightarrow> real"
  tight_walk :: "nat list"

text \<open>
  Modelled from the spec: the contract of the Subproblem Solver (sections 4.2 and 8):
  \<open>x[j]\<close> is the shortest distance from \<open>s\<close> to \<open>j\<close> under the effective costs of the
  scenario, and the path to \<open>t\<close> is a simple path of cost \<open>x[t]\<close>. With the bounds
  \<open>(M, M)\<close> on missing arcs every node has a finite distance.
\<close>

definition subproblem_ok ::
  "nat \<Rightarrow> matrix \<Rightarrow> matrix \<Rightarrow> nat \<Rightarrow> nat \<Rightarrow> scenario \<Rightarrow> sub_answer \<Rightarrow> bool" where
  "subproblem_ok N l u s t Y ans =
     ((\<forall>j<N. shortest_distance N (effective_cost l u Y) s j (potential ans j)) \<and>
      is_walk N s (tight_walk ans) t \<and> distinct (tight_walk ans) \<and>
      walk_cost (effective_cost l u Y) (tight_walk ans) = potential ans t)"

text \<open>Modelled from the spec: the two collaborators of the loop.\<close>

record oracles =
  master :: "cut list \<Rightarrow> master_answer"
  subproblem :: "scenario \<Rightarrow> sub_answer"

text \<open>Modelled from the spec: the errors of section 7 that the orchestrator raises.\<close>

datatype failure = InvalidInstance | NoPathExists | MasterInfeasible | IterationLimitExceeded

text \<open>Modelled from the spec: the states of the state machine after \<open>INIT\<close>.\<close>

datatype phase = ITERATING | CONVERGED | FAILED failure

text \<open>
  Modelled from the spec: the state of the orchestrator. \<open>LB = None\<close> is \<open>-\<infinity>\<close> and
  \<open>UB = None\<close> is \<open>+\<infinity>\<close>; the cut store is append-only.
\<close>

record orchestrator =
  LB :: "real option"
  UB :: "real option"
  cut_store :: "cut list"
  iteration :: nat
  phase :: phase

text \<open>
  Modelled from the spec: the validation of state \<open>INIT\<close> (sections 4.5 and 7).
  \<open>InvalidInstance\<close>: a node out of range, \<open>s = t\<close>, a negative bound or a lower bound
  above its upper bound.
\<close>

definition valid_instance :: "nat \<Rightarrow> matrix \<Rightarrow> matrix \<Rightarrow> nat \<Rightarrow> nat \<Rightarrow> bool" where
  "valid_instance N l u s t =
     (s < N \<and> t < N \<and> s \<noteq> t \<and>
      list_all (\<lambda>i. list_all (\<lambda>j. 0 \<le> l i j \<and> l i j \<le> u i j) [0..<N]) [0..<N])"

text \<open>
  Modelled from the spec: the reachability check of \<open>INIT\<close> (section 7), over the arcs
  that are not the sentinel: \<open>reach k\<close> adds, \<open>k\<close> times, the nodes that an arc joins to a
  node already reached. A source without an outgoing arc and a target without an
  incoming arc fail this check too.
\<close>

fun reach :: "nat \<Rightarrow> nat \<Rightarrow> matrix \<Rightarrow> matrix \<Rightarrow> nat list \<Rightarrow> nat list" where
  "reach 0 N l u vs = vs"
| "reach (Suc k) N l u vs =
     reach k N l u
       (vs @ filter (\<lambda>j. \<not> List.member vs j \<and> list_ex (\<lambda>i. arc_exists l u i j) vs) [0..<N])"

definition reachable :: "nat \<Rightarrow> matrix \<Rightarrow> matrix \<Rightarrow> nat \<Rightarrow> nat \<Rightarrow> bool" where
  "reachable N l u s t = List.member (reach N N l u [s]) t"

text \<open>Modelled from the spec: \<open>INIT\<close> seeds \<open>LB = -\<infinity>\<close>, \<open>UB = +\<infinity>\<close> and an empty cut store.\<close>

definition seed :: orchestrator where
  "seed = \<lparr>LB = None, UB = None, cut_store = [], iteration = 0, phase = ITERATING\<rparr>"

text \<open>
  Modelled from the spec: state \<open>INIT\<close>: validate, check reachability, seed. Both errors
  are fatal and come before any pass of the loop.
\<close>

definition INIT :: "nat \<Rightarrow> matrix \<Rightarrow> matrix \<Rightarrow> nat \<Rightarrow> nat \<Rightarrow> failure + orchestrator" where
  "INIT N l u s t =
     (if \<not> valid_instance N l u s t then Inl InvalidInstance
      else if \<not> reachable N l u s t then Inl NoPathExists
      else Inr seed)"

text \<open>Modelled from the spec: \<open>LB = max(LB, Z_master)\<close> and \<open>UB = min(UB, Z_sub)\<close>.\<close>

definition raise_LB :: "real option \<Rightarrow> real \<Rightarrow> real option" where
  "raise_LB lb z = (case lb of None \<Rightarrow> Some z | Some b \<Rightarrow> Some (max b z))"

definition lower_UB :: "real option \<Rightarrow> real \<Rightarrow> real option" where
  "lower_UB ub z = (case ub of None \<Rightarrow> Some z | Some b \<Rightarrow> Some (min b z))"

text \<open>Modelled from the spec: the candidate objective \<open>Z_sub = \<Sum> upper\<^sub>i\<^sub>j \<cdot> Y\<^sub>i\<^sub>j - x[t]\<close>.\<close>

definition Z_sub :: "nat \<Rightarrow> matrix \<Rightarrow> scenario \<Rightarrow> real \<Rightarrow> real" where
  "Z_sub N u Y xt = upper_sum N u Y - xt"

text \<open>Modelled from the spec: the stopping rule \<open>UB - LB \<le> tolerance\<close>.\<close>

definition converged :: "real \<Rightarrow> real option \<Rightarrow> real option \<Rightarrow> bool" where
  "converged tol lb ub =
     (case lb of None \<Rightarrow> False
      | Some a \<Rightarrow> (case ub of None \<Rightarrow> False | Some b \<Rightarrow> b - a \<le> tol))"

text \<open>
  Modelled from the spec: steps 2 to 5 of a pass, for the scenario \<open>Y\<close> of the master and
  the lower bound \<open>lb\<close> after step 1.
\<close>

definition finish_pass ::
  "oracles \<Rightarrow> nat \<Rightarrow> matrix \<Rightarrow> nat \<Rightarrow> real \<Rightarrow> nat \<Rightarrow> orchestrator \<Rightarrow> scenario \<Rightarrow> real option
     \<Rightarrow> orchestrator" where
  "finish_pass orc N u t tol max_iter st Y lb =
     (let x = subproblem orc Y;
          ub = lower_UB (UB st) (Z_sub N u Y (potential x t));
          k = Suc (iteration st)
      in if converged tol lb ub
         then st\<lparr>LB := lb, UB := ub, iteration := k, phase := CONVERGED\<rparr>
         else if max_iter < k
         then st\<lparr>LB := lb, UB := ub, cut_store := cut_store st @ [tight_walk x], iteration := k,
                  phase := FAILED IterationLimitExceeded\<rparr>
         else st\<lparr>LB := lb, UB := ub, cut_store := cut_store st @ [tight_walk x], iteration := k\<rparr>)"

text \<open>
  Modelled from the spec: one pass of state \<open>ITERATING\<close>. Step 1 asks the master; an
  infeasible master is fatal (\<open>MasterInfeasible\<close>), and a master without a finite value
  has no \<open>Z_master\<close> to raise \<open>LB\<close> with, so \<open>LB\<close> stays as it is.
\<close>

definition iterate ::
  "oracles \<Rightarrow> nat \<Rightarrow> matrix \<Rightarrow> nat \<Rightarrow> real \<Rightarrow> nat \<Rightarrow> orchestrator \<Rightarrow> orchestrator" where
  "iterate orc N u t tol max_iter st =
     (if phase st \<noteq> ITERATING then st
      else
        (case master orc (cut_store st) of
           INFEASIBLE \<Rightarrow> st\<lparr>iteration := Suc (iteration st), phase := FAILED MasterInfeasible\<rparr>
         | OPTIMAL Y Z \<Rightarrow> finish_pass orc N u t tol max_iter st Y (raise_LB (LB st) Z)
         | UNBOUNDED Y \<Rightarrow> finish_pass orc N u t tol max_iter st Y (LB st)))"

text \<open>Modelled from the spec: the state after \<open>n\<close> passes.\<close>

primrec passes ::
  "oracles \<Rightarrow> nat \<Rightarrow> matrix \<Rightarrow> nat \<Rightarrow> real \<Rightarrow> nat \<Rightarrow> nat \<Rightarrow> orchestrator \<Rightarrow> orchestrator" where
  "passes orc N u t tol max_iter 0 st = st"
| "passes orc N u t tol max_iter (Suc n) st =
     iterate orc N u t tol max_iter (passes orc N u t tol max_iter n st)"

text \<open>Modelled from the spec: \<open>INIT\<close>, then \<open>n\<close> passes of the loop.\<close>

definition run ::
  "oracles \<Rightarrow> nat \<Rightarrow> matrix \<Rightarrow> matrix \<Rightarrow> nat \<Rightarrow> nat \<Rightarrow> real \<Rightarrow> nat \<Rightarrow> nat \<Rightarrow> failure + orchestrator" where
  "run orc N l u s t tol max_iter n =
     (case INIT N l u s t of
        Inl e \<Rightarrow> Inl e
      | Inr st \<Rightarrow> Inr (passes orc N u t tol max_iter n st))"

text \<open>
  The order of lower bounds, where \<open>None\<close> is \<open>-\<infinity>\<close>, and of upper bounds, where
  \<open>None\<close> is \<open>+\<infinity>\<close>.
\<close>

definition le_LB :: "real option \<Rightarrow> real option \<Rightarrow> bool" where
  "le_LB a b =
     (case a of None \<Rightarrow> True | Some x \<Rightarrow> (case b of None \<Rightarrow> False | Some y \<Rightarrow> x \<le> y))"

definition le_UB :: "real option \<Rightarrow> real option \<Rightarrow> bool" where
  "le_UB a b =
     (case b of None \<Rightarrow> True | Some y \<Rightarrow> (case a of None \<Rightarrow> False | Some x \<Rightarrow> x \<le> y))"

text \<open>
  Modelled from the spec: the collaborators keep their contracts during the first \<open>n\<close>
  passes: in every state in which a pass starts, the answer of the master obeys
  \<open>master_ok\<close> for the cuts of the store, and the answer of the subproblem obeys
  \<open>subproblem_ok\<close> for the scenario that the master proposes.
\<close>

fun proposed :: "master_answer \<Rightarrow> scenario option" where
  "proposed (OPTIMAL Y Z) = Some Y"
| "proposed (UNBOUNDED Y) = Some Y"
| "proposed INFEASIBLE = None"

definition answers_ok :: "oracles \<Rightarrow> nat \<Rightarrow> matrix \<Rightarrow> matrix \<Rightarrow> nat \<Rightarrow> nat \<Rightarrow> cut list \<Rightarrow> bool" where
  "answers_ok orc N l u s t cuts =
     (master_ok N l u s t cuts (master orc cuts) \<and>
      (case proposed (master orc cuts) of
         None \<Rightarrow> True
       | Some Y \<Rightarrow> subproblem_ok N l u s t Y (subproblem orc Y)))"

definition collaborators_ok ::
  "oracles \<Rightarrow> nat \<Rightarrow> matrix \<Rightarrow> matrix \<Rightarrow> nat \<Rightarrow> nat \<Rightarrow> real \<Rightarrow> nat \<Rightarrow> nat \<Rightarrow> bool" where
  "collaborators_ok orc N l u s t tol max_iter n =
     (\<forall>k<n. phase (passes orc N u t tol max_iter k seed) = ITERATING \<longrightarrow>
            answers_ok orc N l u s t (cut_store (passes orc N u t tol max_iter k seed)))"

section \<open>Instances for the Benders loop\<close>

text \<open>
  Three nodes, source 0 and target 2: the arcs \<open>0 \<rightarrow> 1\<close> and \<open>1 \<rightarrow> 2\<close> with the bounds
  \<open>(1, 20)\<close> and the arc \<open>0 \<rightarrow> 2\<close> with the bounds \<open>(9, 25)\<close>; the diagonal is 0 and every
  other pair is missing. The path \<open>0 \<rightarrow> 2\<close> costs 25 at worst, against the shortest path
  of cost 2 then: regret 23. The path \<open>0 \<rightarrow> 1 \<rightarrow> 2\<close> costs 40 at worst, against 9: regret
  31.
\<close>

definition bx_l :: matrix where
  "bx_l = (\<lambda>i j. if i = j then 0 else if i = 0 \<and> j = 1 then 1 else if i = 1 \<and> j = 2 then 1
                  else if i = 0 \<and> j = 2 then 9 else M)"

definition bx_u :: matrix where
  "bx_u = (\<lambda>i j. if i = j then 0 else if i = 0 \<and> j = 1 then 20 else if i = 1 \<and> j = 2 then 20
                  else if i = 0 \<and> j = 2 then 25 else M)"

definition bx_direct :: scenario where
  "bx_direct = (\<lambda>i j. if i = 0 \<and> j = 2 then 1 else 0)"

definition bx_via :: scenario where
  "bx_via = (\<lambda>i j. if (i = 0 \<and> j = 1) \<or> (i = 1 \<and> j = 2) then 1 else 0)"

text \<open>
  Collaborators for this graph. Without a cut the master is unbounded and proposes the
  path \<open>0 \<rightarrow> 1 \<rightarrow> 2\<close>; with the cut of the path \<open>0 \<rightarrow> 2\<close> it proposes the path \<open>0 \<rightarrow> 2\<close>
  with value 0, and with both cuts the same path with value 23. The subproblem answers
  with the shortest distances under the scenario and the shortest path to node 2.
\<close>

definition bx_oracles :: oracles where
  "bx_oracles =
     \<lparr>master = (\<lambda>cs. if cs = [] then UNBOUNDED bx_via
                     else if cs = [[0, 2]] then OPTIMAL bx_direct 0
                     else OPTIMAL bx_direct 23),
      subproblem = (\<lambda>Y. if Y 0 2 = 1
                        then \<lparr>potential = (\<lambda>j. if j = 0 then 0 else if j = 1 then 1 else 2),
                              tight_walk = [0, 1, 2]\<rparr>
                        else \<lparr>potential = (\<lambda>j. if j = 0 then 0 else if j = 1 then 20 else 9),
                              tight_walk = [0, 2]\<rparr>)\<rparr>"




section \<open>The model that the notebook builds\<close>

lemma fold_add_constraint:
  "fold (\<lambda>j m. if P j then add_constraint (c j) m else m) xs m =
     m\<lparr>constraints := constraints m @ map c (filter P xs)\<rparr>"
  by (induction xs arbitrary: m) (simp_all add: add_constraint_def)

lemma sum_list_upt: "sum_list (map f [0..<N]) = (\<Sum>i<N. f i)"
  by (simp add: interv_sum_list_conv_sum_set_nat atLeast0LessThan)

lemma sum_list_concat_map: "sum_list (concat xss) = sum_list (map sum_list xss)"
  by (induction xss) simp_all

lemma sum_list_pairs:
  "sum_list [f i j. i \<leftarrow> [0..<N], j \<leftarrow> [0..<K]] = (\<Sum>i<N. \<Sum>j<K. f i j)"
  by (simp add: sum_list_concat_map comp_def sum_list_upt)

lemma map_pairs:
  "map g [f i j. i \<leftarrow> [0..<N], j \<leftarrow> [0..<K]] = [g (f i j). i \<leftarrow> [0..<N], j \<leftarrow> [0..<K]]"
  by (simp add: map_concat comp_def)

lemma eval_flux: "eval a (flux N j) = netout N a j"
  by (simp add: flux_def netout_def comp_def sum_list_upt)

lemma build_model_constraints:
  assumes "build_model N l u s t = Inr m"
  shows "constraints m =
     Eq (Var (Xvar s)) (Const 0) #
     [Le (Var (Xvar j)) (Add (Add (Var (Xvar i)) (Const (l i j))) (Mul (u i j - l i j) (Var (Yvar i j)))).
        i \<leftarrow> [0..<N], j \<leftarrow> [0..<N]] @
     [Eq (flux N s) (Const 1), Eq (flux N t) (Const (- 1))] @
     map (\<lambda>j. Eq (flux N j) (Const 0)) (filter (\<lambda>j. j \<noteq> s \<and> j \<noteq> t) [0..<N])"
  using assms
  by (auto simp: build_model_def Let_def fold_add_constraint add_constraint_def add_constraints_def
      minimize_def continuous_var_dict_def binary_var_dict_def Model_def split: if_splits)

lemma build_model_vars:
  assumes "build_model N l u s t = Inr m"
  shows "binary_vars m = [Yvar i j. i \<leftarrow> [0..<N], j \<leftarrow> [0..<N]]"
    and "continuous_vars m = map Xvar [0..<N]"
    and "objective_sense m = Minimize"
    and "objective_expr m = Sub (Sum [Mul (u i j) (Var (Yvar i j)). i \<leftarrow> [0..<N], j \<leftarrow> [0..<N]]) (Var (Xvar t))"
    and "benders_strategy m = None"
    and "s < N" and "t < N"
  using assms
  by (auto simp: build_model_def Let_def fold_add_constraint add_constraint_def add_constraints_def
      minimize_def continuous_var_dict_def binary_var_dict_def Model_def map_pairs split: if_splits)

lemma list_all_pairs:
  "list_all P [f i j. i \<leftarrow> [0..<N], j \<leftarrow> [0..<K]] = (\<forall>i<N. \<forall>j<K. P (f i j))"
  by (auto simp: list_all_iff)

lemma feasible_build_model:
  assumes "build_model N l u s t = Inr m"
  shows "feasible m a \<longleftrightarrow>
    domains_ok N a \<and> a (Xvar s) = 0 \<and> (\<forall>i<N. \<forall>j<N. distance_ok l u a i j) \<and>
    flow_conservation N s t a"
proof -
  have flux: "list_all (holds a) (map (\<lambda>j. Eq (flux N j) (Const 0)) (filter (\<lambda>j. j \<noteq> s \<and> j \<noteq> t) [0..<N]))
      \<longleftrightarrow> (\<forall>j<N. j \<noteq> s \<longrightarrow> j \<noteq> t \<longrightarrow> netout N a j = 0)"
    by (auto simp: list_all_iff eval_flux)
  have cont: "list_all (\<lambda>v. 0 \<le> a v) (map Xvar [0..<N]) \<longleftrightarrow> (\<forall>j<N. 0 \<le> a (Xvar j))"
    by (auto simp: list_all_iff)
  show ?thesis
    unfolding feasible_def build_model_constraints[OF assms] build_model_vars[OF assms]
      domains_ok_def distance_ok_def flow_conservation_def
    by (simp add: list_all_pairs eval_flux flux cont del: of_int_diff)
qed

lemma objective_build_model:
  assumes "build_model N l u s t = Inr m"
  shows "objective_value m a = upper_cost N u a - a (Xvar t)"
  unfolding objective_value_def build_model_vars[OF assms] upper_cost_def
  by (simp add: sum_list_pairs map_pairs)

lemma length_pairs: "length [f i j. i \<leftarrow> [0..<N], j \<leftarrow> [0..<K]] = N * K"
  by (simp add: length_concat comp_def sum_list_triv)

lemma flux_constraints_hold:
  assumes "build_model N l u s t = Inr m"
  shows "list_all (holds a) (drop (Suc (N * N)) (constraints m)) \<longleftrightarrow> flow_conservation N s t a"
proof -
  have flux: "list_all (holds a) (map (\<lambda>j. Eq (flux N j) (Const 0)) (filter (\<lambda>j. j \<noteq> s \<and> j \<noteq> t) [0..<N]))
      \<longleftrightarrow> (\<forall>j<N. j \<noteq> s \<longrightarrow> j \<noteq> t \<longrightarrow> netout N a j = 0)"
    by (auto simp: list_all_iff eval_flux)
  show ?thesis
    unfolding build_model_constraints[OF assms] flow_conservation_def
    by (simp add: length_pairs eval_flux flux)
qed

section \<open>Graph generation: the loops in closed form\<close>

text \<open>
  Each loop of the generation cell is a fold over \<open>range(N)\<close>; by induction on the
  number of rounds, the matrices it leaves behind have a closed form.
\<close>

lemma zero_diagonal_eq:
  "zero_diagonal N (l0, u0) =
     (\<lambda>i j. if i = j \<and> i < N then 0 else l0 i j, \<lambda>i j. if i = j \<and> i < N then 0 else u0 i j)"
proof (induction N)
  case 0
  show ?case by (simp add: zero_diagonal_def)
next
  case (Suc N)
  have "zero_diagonal (Suc N) (l0, u0) =
      (\<lambda>(l, u). (set_entry l N N 0, set_entry u N N 0)) (zero_diagonal N (l0, u0))"
    by (simp add: zero_diagonal_def)
  also have "\<dots> = (\<lambda>i j. if i = j \<and> i < Suc N then 0 else l0 i j,
                    \<lambda>i j. if i = j \<and> i < Suc N then 0 else u0 i j)"
    unfolding Suc.IH by (auto simp: set_entry_def fun_eq_iff)
  finally show ?case .
qed

lemma delete_row_eq:
  "fold (\<lambda>j. delete_step dummy i j) [0..<K] (l, u) =
     (\<lambda>i' j'. if i' = i \<and> j' < K \<and> dummy i j' \<noteq> 0 then M else l i' j',
      \<lambda>i' j'. if i' = i \<and> j' < K \<and> dummy i j' \<noteq> 0 then M else u i' j')"
proof (induction K)
  case 0
  show ?case by simp
next
  case (Suc K)
  have "fold (\<lambda>j. delete_step dummy i j) [0..<Suc K] (l, u) =
      delete_step dummy i K (fold (\<lambda>j. delete_step dummy i j) [0..<K] (l, u))"
    by simp
  also have "\<dots> =
     (\<lambda>i' j'. if i' = i \<and> j' < Suc K \<and> dummy i j' \<noteq> 0 then M else l i' j',
      \<lambda>i' j'. if i' = i \<and> j' < Suc K \<and> dummy i j' \<noteq> 0 then M else u i' j')"
    unfolding Suc.IH by (auto simp: delete_step_def deletes_def set_entry_def fun_eq_iff less_Suc_eq)
  finally show ?case .
qed

lemma delete_arcs_eq:
  "delete_arcs N dummy (l, u) =
     (\<lambda>i j. if i < N \<and> j < N \<and> dummy i j \<noteq> 0 then M else l i j,
      \<lambda>i j. if i < N \<and> j < N \<and> dummy i j \<noteq> 0 then M else u i j)"
proof -
  have "fold (\<lambda>i. fold (\<lambda>j. delete_step dummy i j) [0..<N]) [0..<K] (l, u) =
     (\<lambda>i j. if i < K \<and> j < N \<and> dummy i j \<noteq> 0 then M else l i j,
      \<lambda>i j. if i < K \<and> j < N \<and> dummy i j \<noteq> 0 then M else u i j)" for K
  proof (induction K)
    case 0
    show ?case by simp
  next
    case (Suc K)
    show ?case
      by (auto simp: Suc.IH delete_row_eq fun_eq_iff less_Suc_eq)
  qed
  then show ?thesis by (simp add: delete_arcs_def)
qed

lemma generate_eq:
  "generate N l0 u0 dummy =
     (\<lambda>i j. if i < N \<and> j < N \<and> dummy i j \<noteq> 0 then M else if i = j \<and> i < N then 0 else l0 i j,
      \<lambda>i j. if i < N \<and> j < N \<and> dummy i j \<noteq> 0 then M else if i = j \<and> i < N then 0 else u0 i j)"
  by (simp add: generate_def zero_diagonal_eq delete_arcs_eq)

lemma keep_probability_eq: "keep_probability = 1 / 10"
proof -
  have vals: "dummy_values = [0, 1, 2, 3, 4, 5, 6, 7, 8, 9]"
    unfolding dummy_values_def by (simp add: upto.simps)
  show ?thesis
    by (simp add: keep_probability_def deletes_def vals)
qed

lemma ex_l_eq: "ex_l = (\<lambda>i j. if i < 2 \<and> j = 0 then M else if i = j \<and> i < 2 then 0 else 3)"
  by (auto simp: ex_l_def generate_eq ex_l0_def ex_dummy_def fun_eq_iff)

lemma ex_u_eq: "ex_u = (\<lambda>i j. if i < 2 \<and> j = 0 then M else if i = j \<and> i < 2 then 0 else 25)"
  by (auto simp: ex_u_def generate_eq ex_u0_def ex_dummy_def fun_eq_iff)

lemma ex_generate: "generate 2 ex_l0 ex_u0 ex_dummy = (ex_l, ex_u)"
  by (simp add: ex_l_def ex_u_def)

lemma ex_randint: "randint 1 10 2 ex_l0" "randint 20 30 2 ex_u0" "randint 0 10 2 ex_dummy"
  by (simp_all add: randint_def ex_l0_def ex_u0_def ex_dummy_def)

text \<open>
  Claim C10. An off-diagonal arc \<open>(i, j)\<close> is deleted, that is both its bounds are
  overwritten with \<open>M\<close>, exactly when the draw \<open>dummy i j\<close> is not zero, and keeps its
  drawn bounds otherwise. One of the ten values a draw can take keeps the arc: an arc is
  kept with probability 1/10, not 1/2.
\<close>

theorem arc_deleted_iff_dummy_nonzero:
  assumes "randint 1 10 N l0" and "randint 20 30 N u0"
    and "generate N l0 u0 dummy = (l, u)"
    and "i < N" and "j < N" and "i \<noteq> j"
  shows "((l i j = M \<and> u i j = M) \<longleftrightarrow> dummy i j \<noteq> 0) \<and>
         (dummy i j = 0 \<longrightarrow> l i j = l0 i j \<and> u i j = u0 i j) \<and>
         keep_probability = 1 / 10 \<and> keep_probability \<noteq> 1 / 2"
proof -
  have l: "l i j = (if dummy i j \<noteq> 0 then M else l0 i j)"
    and u: "u i j = (if dummy i j \<noteq> 0 then M else u0 i j)"
    using assms(3-6) by (auto simp: generate_eq)
  have "l0 i j < 10" using assms(1,4,5) by (simp add: randint_def)
  then have "l0 i j \<noteq> M" by (simp add: M_def)
  with l u show ?thesis by (simp add: keep_probability_eq)
qed

theorem arc_deleted_iff_dummy_nonzero_witness:
  "randint 1 10 2 ex_l0 \<and> randint 20 30 2 ex_u0 \<and> generate 2 ex_l0 ex_u0 ex_dummy = (ex_l, ex_u) \<and>
   ex_dummy 0 1 = 0 \<and> ex_l 0 1 = 3 \<and> ex_u 0 1 = 25 \<and> ex_l 0 1 \<noteq> M \<and> keep_probability = 1 / 10"
proof -
  have d: "ex_dummy 0 1 = 0" by (simp add: ex_dummy_def)
  have l0: "ex_l0 0 1 = 3" by (simp add: ex_l0_def)
  have u0: "ex_u0 0 1 = 25" by (simp add: ex_u0_def)
  have "ex_l 0 1 = 3 \<and> ex_u 0 1 = 25 \<and> keep_probability = 1 / 10"
    using arc_deleted_iff_dummy_nonzero [OF ex_randint(1) ex_randint(2) ex_generate, of 0 1] d l0 u0
    by simp
  then show ?thesis
    using ex_randint ex_generate d by (simp add: M_def)
qed

section \<open>The two-node instance, evaluated\<close>

lemma ex_build: "build_model 2 ex_l ex_u 0 (Suc 0) = Inr ex_model"
  by (simp add: ex_model_def build_model_def)

lemma in_set_pairs: "i < N \<Longrightarrow> j < K \<Longrightarrow> f i j \<in> set [f i j. i \<leftarrow> [0..<N], j \<leftarrow> [0..<K]]"
  by force

lemma less_2_all: "(\<forall>i<2::nat. P i) \<longleftrightarrow> P 0 \<and> P (Suc 0)"
  by (auto simp: less_2_cases_iff)

lemma sum_less_2: "(\<Sum>i<2::nat. f i) = f 0 + f (Suc 0)"
  by (simp add: numeral_2_eq_2)

lemma ex_sol_values:
  "ex_sol (Yvar 0 0) = 0" "ex_sol (Yvar 0 (Suc 0)) = 1" "ex_sol (Yvar (Suc 0) 0) = 0"
  "ex_sol (Yvar (Suc 0) (Suc 0)) = 0" "ex_sol (Xvar 0) = 0" "ex_sol (Xvar (Suc 0)) = 25"
  by (simp_all add: ex_sol_def direct_assignment_def)

lemma ex_l_values: "ex_l 0 0 = M" "ex_l 0 (Suc 0) = 3" "ex_l (Suc 0) 0 = M" "ex_l (Suc 0) (Suc 0) = 0"
  by (simp_all add: ex_l_eq)

lemma ex_u_values: "ex_u 0 0 = M" "ex_u 0 (Suc 0) = 25" "ex_u (Suc 0) 0 = M" "ex_u (Suc 0) (Suc 0) = 0"
  by (simp_all add: ex_u_eq)

lemma ex_upper_cost: "upper_cost 2 ex_u ex_sol = 25"
  by (simp add: upper_cost_def sum_less_2 ex_sol_values ex_u_values)

lemma ex_netout: "netout 2 ex_sol 0 = 1" "netout 2 ex_sol (Suc 0) = - 1"
  unfolding netout_def sum_less_2 by (simp_all add: ex_sol_values)

lemma ex_flow: "flow_conservation 2 0 (Suc 0) ex_sol"
  unfolding flow_conservation_def less_2_all by (simp add: ex_netout)

lemma ex_domains: "domains_ok 2 ex_sol"
  by (simp add: domains_ok_def less_2_all ex_sol_values)

lemma ex_distance: "\<forall>i<2. \<forall>j<2. distance_ok ex_l ex_u ex_sol i j"
  by (simp add: distance_ok_def less_2_all ex_sol_values ex_l_values ex_u_values M_def)

lemma ex_feasible: "feasible ex_model ex_sol"
  by (simp add: feasible_build_model[OF ex_build] ex_domains ex_distance ex_flow ex_sol_values)

section \<open>The objective and the constraints of the model\<close>

text \<open>
  Claim C3. The objective of the model is minimised, and its value under any assignment
  is the sum of \<open>u i j \<cdot> Y[i,j]\<close> over all ordered pairs of nodes minus \<open>X[t]\<close>.
\<close>

theorem objective_is_upper_cost_minus_target:
  assumes "build_model N l u s t = Inr m"
  shows "objective_sense m = Minimize \<and>
         objective_value m a = (\<Sum>i<N. \<Sum>j<N. real_of_int (u i j) * a (Yvar i j)) - a (Xvar t)"
  using build_model_vars(3)[OF assms] objective_build_model[OF assms]
  by (simp add: upper_cost_def)

theorem objective_is_upper_cost_minus_target_witness:
  "build_model 2 ex_l ex_u 0 1 = Inr ex_model \<and> objective_sense ex_model = Minimize \<and>
   objective_value ex_model ex_sol = 25 - 25"
  using objective_is_upper_cost_minus_target [OF ex_build, of ex_sol] ex_build
  by (simp add: sum_less_2 ex_sol_values ex_u_values)

text \<open>
  Claim C4. For every ordered pair \<open>(i, j)\<close> of nodes, and so for every arc, the model
  contains the constraint \<open>X[j] \<le> X[i] + l i j + (u i j - l i j) \<cdot> Y[i,j]\<close>. Beyond the
  domains of the variables, an assignment is feasible exactly when it meets these
  constraints, \<open>X[s] = 0\<close> and flow conservation: the model has no other constraint.
\<close>

theorem distance_constraint_for_every_pair:
  assumes "build_model N l u s t = Inr m"
  shows "(\<forall>i<N. \<forall>j<N.
            Le (Var (Xvar j))
               (Add (Add (Var (Xvar i)) (Const (l i j))) (Mul (u i j - l i j) (Var (Yvar i j))))
              \<in> set (constraints m)) \<and>
         (feasible m a \<longleftrightarrow>
            domains_ok N a \<and> a (Xvar s) = 0 \<and>
            (\<forall>i<N. \<forall>j<N. a (Xvar j) \<le> a (Xvar i) + real_of_int (l i j)
                                        + real_of_int (u i j - l i j) * a (Yvar i j)) \<and>
            flow_conservation N s t a)"
proof -
  have "Le (Var (Xvar j))
           (Add (Add (Var (Xvar i)) (Const (l i j))) (Mul (u i j - l i j) (Var (Yvar i j))))
          \<in> set (constraints m)" if "i < N" "j < N" for i j
  proof -
    have "Le (Var (Xvar j))
           (Add (Add (Var (Xvar i)) (Const (l i j))) (Mul (u i j - l i j) (Var (Yvar i j))))
          \<in> set [Le (Var (Xvar j))
                     (Add (Add (Var (Xvar i)) (Const (l i j))) (Mul (u i j - l i j) (Var (Yvar i j)))).
                   i \<leftarrow> [0..<N], j \<leftarrow> [0..<N]]"
      using that by (rule in_set_pairs)
    then show ?thesis
      unfolding build_model_constraints[OF assms] set_append list.set by blast
  qed
  then show ?thesis
    using feasible_build_model[OF assms, of a] by (simp add: distance_ok_def)
qed

theorem distance_constraint_for_every_pair_witness:
  "build_model 2 ex_l ex_u 0 1 = Inr ex_model \<and>
   Le (Var (Xvar 1)) (Add (Add (Var (Xvar 0)) (Const 3)) (Mul 22 (Var (Yvar 0 1))))
     \<in> set (constraints ex_model) \<and>
   feasible ex_model ex_sol"
proof -
  have "\<forall>i<2. \<forall>j<2. ex_sol (Xvar j) \<le> ex_sol (Xvar i) + real_of_int (ex_l i j)
                                        + real_of_int (ex_u i j - ex_l i j) * ex_sol (Yvar i j)"
    using ex_distance by (simp add: distance_ok_def)
  then show ?thesis
    using distance_constraint_for_every_pair [OF ex_build, of ex_sol] ex_build ex_domains ex_flow
    by (simp add: less_2_all ex_sol_values ex_l_values ex_u_values)
qed

text \<open>
  Claim C5. The constraints that follow \<open>X[s] = 0\<close> and the \<open>N\<^sup>2\<close> distance constraints
  are the flux constraints. They hold exactly when the net outflow of \<open>Y\<close> is \<open>+1\<close> at
  \<open>s\<close>, \<open>-1\<close> at \<open>t\<close> and \<open>0\<close> at every other node.
\<close>

theorem flux_constraints_are_flow_conservation:
  assumes "build_model N l u s t = Inr m"
  shows "list_all (holds a) (drop (Suc (N * N)) (constraints m)) \<longleftrightarrow>
           netout N a s = 1 \<and> netout N a t = - 1 \<and>
           (\<forall>j<N. j \<noteq> s \<longrightarrow> j \<noteq> t \<longrightarrow> netout N a j = 0)"
  using flux_constraints_hold[OF assms, of a] by (simp add: flow_conservation_def)

theorem flux_constraints_are_flow_conservation_witness:
  "build_model 2 ex_l ex_u 0 1 = Inr ex_model \<and>
   list_all (holds ex_sol) (drop (Suc (2 * 2)) (constraints ex_model)) \<and>
   netout 2 ex_sol 0 = 1 \<and> netout 2 ex_sol 1 = - 1"
  using flux_constraints_are_flow_conservation [OF ex_build, of ex_sol] ex_build ex_netout
  unfolding less_2_all by simp

section \<open>Bounds that every feasible assignment obeys\<close>

text \<open>
  Flow conservation makes the \<open>Y\<close>-weighted sum of potential differences telescope: it
  is the potential of the target minus that of the source.
\<close>

lemma netout_delta:
  assumes "flow_conservation N s t a" and "s \<noteq> t" and "j < N"
  shows "netout N a j = (if j = s then 1 else 0) - (if j = t then 1 else 0)"
  using assms by (auto simp: flow_conservation_def)

lemma potential_sum:
  fixes p :: "nat \<Rightarrow> real"
  assumes "flow_conservation N s t a" and "s \<noteq> t" and "s < N" and "t < N"
  shows "(\<Sum>i<N. \<Sum>j<N. (p j - p i) * a (Yvar i j)) = p t - p s"
proof -
  have A: "(\<Sum>i<N. \<Sum>j<N. p j * a (Yvar i j)) = (\<Sum>j<N. p j * (\<Sum>i<N. a (Yvar i j)))"
    by (subst sum.swap) (simp add: sum_distrib_left)
  have B: "(\<Sum>i<N. \<Sum>j<N. p i * a (Yvar i j)) = (\<Sum>i<N. p i * (\<Sum>j<N. a (Yvar i j)))"
    by (simp add: sum_distrib_left)
  have "(\<Sum>i<N. \<Sum>j<N. (p j - p i) * a (Yvar i j)) =
        (\<Sum>i<N. \<Sum>j<N. p j * a (Yvar i j)) - (\<Sum>i<N. \<Sum>j<N. p i * a (Yvar i j))"
    by (simp add: left_diff_distrib sum_subtractf)
  also have "\<dots> = (\<Sum>j<N. p j * (- netout N a j))"
    unfolding A B by (simp add: netout_def right_diff_distrib sum_subtractf)
  also have "\<dots> = (\<Sum>j<N. (if j = t then p t else 0) - (if j = s then p s else 0))"
    by (rule sum.cong) (auto simp: netout_delta[OF assms(1,2)])
  also have "\<dots> = p t - p s"
    using assms(3,4) by (simp add: sum_subtractf)
  finally show ?thesis .
qed

lemma potential_bound:
  fixes p :: "nat \<Rightarrow> real" and w :: "nat \<Rightarrow> nat \<Rightarrow> real"
  assumes "flow_conservation N s t a" and "s \<noteq> t" and "s < N" and "t < N"
    and "\<forall>i<N. \<forall>j<N. 0 \<le> a (Yvar i j)"
    and "\<forall>i<N. \<forall>j<N. p j - p i \<le> w i j"
  shows "p t - p s \<le> (\<Sum>i<N. \<Sum>j<N. w i j * a (Yvar i j))"
proof -
  have "(\<Sum>i<N. \<Sum>j<N. (p j - p i) * a (Yvar i j)) \<le> (\<Sum>i<N. \<Sum>j<N. w i j * a (Yvar i j))"
    by (intro sum_mono mult_right_mono) (use assms(5,6) in auto)
  then show ?thesis
    by (simp add: potential_sum[OF assms(1-4)])
qed

lemma domains_ok_binary:
  "domains_ok N a \<Longrightarrow> i < N \<Longrightarrow> j < N \<Longrightarrow> a (Yvar i j) = 0 \<or> a (Yvar i j) = 1"
  by (simp add: domains_ok_def)

lemma domains_ok_nonneg: "domains_ok N a \<Longrightarrow> i < N \<Longrightarrow> j < N \<Longrightarrow> 0 \<le> a (Yvar i j)"
  using domains_ok_binary[of N a i j] by auto

lemma domains_ok_le1: "domains_ok N a \<Longrightarrow> i < N \<Longrightarrow> j < N \<Longrightarrow> a (Yvar i j) \<le> 1"
  using domains_ok_binary[of N a i j] by auto

text \<open>A double sum in which one term is changed.\<close>

lemma double_sum_delta:
  fixes f :: "nat \<Rightarrow> nat \<Rightarrow> real"
  assumes "s < N" and "t < N"
  shows "(\<Sum>i<N. \<Sum>j<N. (if i = s \<and> j = t then c else 0) + f i j) = c + (\<Sum>i<N. \<Sum>j<N. f i j)"
proof -
  have "(\<Sum>i<N. \<Sum>j<N. (if i = s \<and> j = t then c else 0)) = (\<Sum>i<N. if i = s then c else 0)"
    by (rule sum.cong) (use assms in auto)
  also have "\<dots> = c" using assms by simp
  finally show ?thesis by (simp add: sum.distrib)
qed

text \<open>
  When no arc out of \<open>s\<close> other than \<open>(s, t)\<close> has an upper bound below the lower bound
  of \<open>(s, t)\<close>, no feasible assignment has a negative objective value.
\<close>

lemma objective_nonneg:
  assumes build: "build_model N l u s t = Inr m" and "s \<noteq> t" and feas: "feasible m a"
    and u0: "\<forall>i<N. \<forall>j<N. 0 \<le> u i j"
    and out: "\<forall>j<N. j \<noteq> s \<longrightarrow> j \<noteq> t \<longrightarrow> l s t \<le> u s j"
    and l0: "0 \<le> l s t"
  shows "0 \<le> objective_value m a"
proof -
  have sN: "s < N" and tN: "t < N" using build_model_vars(6,7)[OF build] .
  have dom: "domains_ok N a" and xs: "a (Xvar s) = 0"
    and dist: "distance_ok l u a s t" and flow: "flow_conservation N s t a"
    using feas sN tN by (auto simp: feasible_build_model[OF build])
  define w :: "nat \<Rightarrow> nat \<Rightarrow> real"
    where "w i j = (if i = s \<and> j = t then real_of_int (l s t) else real_of_int (u i j))" for i j
  define p :: "nat \<Rightarrow> real" where "p j = (if j = s then 0 else real_of_int (l s t))" for j
  have "p j - p i \<le> w i j" if "i < N" "j < N" for i j
  proof -
    have "0 \<le> u i j" using u0 that by simp
    moreover have "l s t \<le> u s j" if "j \<noteq> s" "j \<noteq> t"
      using out \<open>j < N\<close> that by simp
    ultimately show ?thesis
      using l0 by (auto simp: p_def w_def)
  qed
  then have "p t - p s \<le> (\<Sum>i<N. \<Sum>j<N. w i j * a (Yvar i j))"
    using potential_bound[OF flow \<open>s \<noteq> t\<close> sN tN, of p w] dom
    by (simp add: domains_ok_nonneg)
  moreover have "(\<Sum>i<N. \<Sum>j<N. w i j * a (Yvar i j)) =
      real_of_int (l s t - u s t) * a (Yvar s t) + upper_cost N u a"
  proof -
    have "(\<Sum>i<N. \<Sum>j<N. w i j * a (Yvar i j)) =
          (\<Sum>i<N. \<Sum>j<N. (if i = s \<and> j = t then real_of_int (l s t - u s t) * a (Yvar s t) else 0)
                            + real_of_int (u i j) * a (Yvar i j))"
      by (intro sum.cong refl) (auto simp: w_def algebra_simps)
    then show ?thesis
      by (simp add: double_sum_delta[OF sN tN] upper_cost_def)
  qed
  moreover have "a (Xvar t) \<le> real_of_int (l s t) + real_of_int (u s t - l s t) * a (Yvar s t)"
    using dist xs by (simp add: distance_ok_def)
  ultimately show ?thesis
    using \<open>s \<noteq> t\<close> by (simp add: objective_build_model[OF build] p_def algebra_simps)
qed

lemma optimalI:
  assumes "build_model N l u s t = Inr m" and "feasible m a"
    and "\<And>a'. feasible m a' \<Longrightarrow> objective_value m a \<le> objective_value m a'"
  shows "optimal m a"
  using assms by (simp add: optimal_def better_eq_def build_model_vars(3)[OF assms(1)])

lemma optimal_le:
  assumes "build_model N l u s t = Inr m" and "optimal m a" and "feasible m a'"
  shows "objective_value m a \<le> objective_value m a'"
  using assms by (simp add: optimal_def better_eq_def build_model_vars(3)[OF assms(1)])

lemma ex_objective: "objective_value ex_model ex_sol = 0"
  by (simp add: objective_build_model[OF ex_build] ex_upper_cost ex_sol_values)

lemma ex_optimal: "optimal ex_model ex_sol"
proof (rule optimalI[OF ex_build ex_feasible])
  fix a' assume "feasible ex_model a'"
  then have "0 \<le> objective_value ex_model a'"
    using objective_nonneg[OF ex_build, of a']
    by (simp add: less_2_all ex_l_values ex_u_values M_def)
  then show "objective_value ex_model ex_sol \<le> objective_value ex_model a'"
    by (simp add: ex_objective)
qed

section \<open>Selecting the pair of source and target alone\<close>

lemma direct_assignment_simps:
  "direct_assignment s t x (Yvar i j) = (if i = s \<and> j = t then 1 else 0)"
  "direct_assignment s t x (Xvar j) = (if j = t then x else 0)"
  by (simp_all add: direct_assignment_def)

lemma direct_netout:
  assumes "s < N" and "t < N" and "s \<noteq> t"
  shows "netout N (direct_assignment s t x) j =
           (if j = s then 1 else 0) - (if j = t then 1 else 0)"
proof -
  have "(\<Sum>k<N. direct_assignment s t x (Yvar j k)) = (if j = s then 1 else 0)"
    using assms by (simp add: direct_assignment_simps)
  moreover have "(\<Sum>i<N. direct_assignment s t x (Yvar i j)) = (if j = t then 1 else 0)"
    using assms by (simp add: direct_assignment_simps)
  ultimately show ?thesis by (simp add: netout_def)
qed

lemma direct_upper_cost:
  assumes "s < N" and "t < N"
  shows "upper_cost N u (direct_assignment s t x) = real_of_int (u s t)"
proof -
  have "upper_cost N u (direct_assignment s t x) =
        (\<Sum>i<N. \<Sum>j<N. (if i = s \<and> j = t then real_of_int (u s t) else 0) + 0)"
    unfolding upper_cost_def
    by (intro sum.cong refl) (auto simp: direct_assignment_simps)
  then show ?thesis by (simp only: double_sum_delta[OF assms]) simp
qed

lemma direct_feasible:
  assumes build: "build_model N l u s t = Inr m" and "s \<noteq> t"
    and l0: "\<forall>i<N. \<forall>j<N. 0 \<le> l i j"
    and x: "0 \<le> x" "x \<le> real_of_int (u s t)"
    and others: "\<forall>i<N. i \<noteq> s \<longrightarrow> i \<noteq> t \<longrightarrow> x \<le> real_of_int (l i t)"
  shows "feasible m (direct_assignment s t x)"
proof -
  have sN: "s < N" and tN: "t < N" using build_model_vars(6,7)[OF build] .
  have "distance_ok l u (direct_assignment s t x) i j" if "i < N" "j < N" for i j
  proof -
    have "0 \<le> l i j" using l0 that by simp
    moreover have "x \<le> real_of_int (l i t)" if "i \<noteq> s" "i \<noteq> t"
      using others \<open>i < N\<close> that by simp
    ultimately show ?thesis
      using x \<open>s \<noteq> t\<close> by (auto simp: distance_ok_def direct_assignment_simps)
  qed
  moreover have "flow_conservation N s t (direct_assignment s t x)"
    using \<open>s \<noteq> t\<close> by (simp add: flow_conservation_def direct_netout[OF sN tN])
  moreover have "domains_ok N (direct_assignment s t x)"
    using x by (simp add: domains_ok_def direct_assignment_simps)
  ultimately show ?thesis
    using \<open>s \<noteq> t\<close> by (simp add: feasible_build_model[OF build] direct_assignment_simps)
qed

text \<open>
  A graph whose only arc out of \<open>s\<close> that matters is \<open>(s, t)\<close>: the assignment that
  selects it and gives \<open>t\<close> the distance \<open>u s t\<close> is optimal, with objective value 0.
\<close>

lemma single_arc_optimum:
  assumes build: "build_model N l u s t = Inr m" and "s \<noteq> t"
    and l0: "\<forall>i<N. \<forall>j<N. 0 \<le> l i j" and u0: "\<forall>i<N. \<forall>j<N. 0 \<le> u i j"
    and st: "l s t \<le> u s t"
    and out: "\<forall>j<N. j \<noteq> s \<longrightarrow> j \<noteq> t \<longrightarrow> l s t \<le> u s j"
    and into: "\<forall>i<N. i \<noteq> s \<longrightarrow> i \<noteq> t \<longrightarrow> u s t \<le> l i t"
  shows "optimal m (direct_assignment s t (real_of_int (u s t)))"
    and "objective_value m (direct_assignment s t (real_of_int (u s t))) = 0"
proof -
  have sN: "s < N" and tN: "t < N" using build_model_vars(6,7)[OF build] .
  have lst: "0 \<le> l s t" using l0 sN tN by simp
  have ust: "0 \<le> u s t" using u0 sN tN by simp
  have feas: "feasible m (direct_assignment s t (real_of_int (u s t)))"
    using direct_feasible[OF build \<open>s \<noteq> t\<close> l0, of "real_of_int (u s t)"] ust into by simp
  show obj: "objective_value m (direct_assignment s t (real_of_int (u s t))) = 0"
    by (simp add: objective_build_model[OF build] direct_upper_cost[OF sN tN]
        direct_assignment_simps)
  show "optimal m (direct_assignment s t (real_of_int (u s t)))"
  proof (rule optimalI[OF build feas])
    fix a' assume "feasible m a'"
    then show "objective_value m (direct_assignment s t (real_of_int (u s t)))
                 \<le> objective_value m a'"
      using objective_nonneg[OF build \<open>s \<noteq> t\<close> _ u0 out lst, of a'] by (simp add: obj)
  qed
qed

section \<open>The Benders parameter\<close>






section \<open>Self-loops\<close>

text \<open>
  The variable \<open>Y[i,i]\<close> enters the flux of node \<open>i\<close> twice, once as outflow and once as
  inflow: its value does not matter to flow conservation.
\<close>

lemma self_update_Y:
  fixes a :: assignment
  shows "(a(Yvar i i := v)) (Yvar j k) =
           (if j = i \<and> k = i then v - a (Yvar i i) else 0) + a (Yvar j k)"
  by simp

lemma netout_self_update: "netout N (a(Yvar i i := v)) j = netout N a j"
proof -
  have out: "(\<Sum>k<N. (a(Yvar i i := v)) (Yvar j k)) =
             (if j = i \<and> i < N then v - a (Yvar i i) else 0) + (\<Sum>k<N. a (Yvar j k))"
    unfolding self_update_Y sum.distrib by auto
  have inn: "(\<Sum>k<N. (a(Yvar i i := v)) (Yvar k j)) =
             (if j = i \<and> i < N then v - a (Yvar i i) else 0) + (\<Sum>k<N. a (Yvar k j))"
    unfolding self_update_Y sum.distrib by auto
  show ?thesis
    unfolding netout_def out inn by simp
qed

lemma upper_cost_self_update:
  assumes "i < N"
  shows "upper_cost N u (a(Yvar i i := v)) =
           real_of_int (u i i) * (v - a (Yvar i i)) + upper_cost N u a"
proof -
  have "upper_cost N u (a(Yvar i i := v)) =
        (\<Sum>j<N. \<Sum>k<N. (if j = i \<and> k = i then real_of_int (u i i) * (v - a (Yvar i i)) else 0)
                          + real_of_int (u j k) * a (Yvar j k))"
    unfolding upper_cost_def self_update_Y
    by (intro sum.cong refl) (auto simp: algebra_simps)
  then show ?thesis
    by (simp only: double_sum_delta[OF assms assms] upper_cost_def)
qed

lemma feasible_self_update:
  assumes build: "build_model N l u s t = Inr m" and feas: "feasible m a" and "i < N"
    and v: "v = 0 \<or> v = 1" and ok: "0 \<le> real_of_int (l i i) + real_of_int (u i i - l i i) * v"
  shows "feasible m (a(Yvar i i := v))"
proof -
  have dom: "domains_ok N a" and xs: "a (Xvar s) = 0"
    and dist: "\<forall>j<N. \<forall>k<N. distance_ok l u a j k" and flow: "flow_conservation N s t a"
    using feas by (auto simp: feasible_build_model[OF build])
  have "domains_ok N (a(Yvar i i := v))"
    using dom v by (auto simp: domains_ok_def)
  moreover have "distance_ok l u (a(Yvar i i := v)) j k" if "j < N" "k < N" for j k
    using dist that ok by (auto simp: distance_ok_def)
  moreover have "flow_conservation N s t (a(Yvar i i := v))"
    using flow by (simp add: flow_conservation_def netout_self_update)
  ultimately show ?thesis
    using xs by (simp add: feasible_build_model[OF build])
qed

lemma objective_self_update:
  assumes build: "build_model N l u s t = Inr m" and "i < N"
  shows "objective_value m (a(Yvar i i := v)) =
           real_of_int (u i i) * (v - a (Yvar i i)) + objective_value m a"
  by (simp add: objective_build_model[OF build] upper_cost_self_update[OF \<open>i < N\<close>])

lemma self_loop_unselected:
  assumes build: "build_model N l u s t = Inr m" and opt: "optimal m a" and "i < N"
    and "0 \<le> l i i" and "0 < u i i"
  shows "a (Yvar i i) = 0"
proof (rule ccontr)
  assume "a (Yvar i i) \<noteq> 0"
  have feas: "feasible m a" using opt by (simp add: optimal_def)
  then have "domains_ok N a" by (simp add: feasible_build_model[OF build])
  then have one: "a (Yvar i i) = 1"
    using domains_ok_binary[of N a i i] \<open>i < N\<close> \<open>a (Yvar i i) \<noteq> 0\<close> by simp
  have "feasible m (a(Yvar i i := 0))"
    using feasible_self_update[OF build feas \<open>i < N\<close>, of 0] \<open>0 \<le> l i i\<close> by simp
  then have "objective_value m a \<le> objective_value m (a(Yvar i i := 0))"
    by (rule optimal_le[OF build opt])
  then show False
    using \<open>0 < u i i\<close> by (simp add: objective_self_update[OF build \<open>i < N\<close>] one)
qed

section \<open>The diagonal after generation\<close>

text \<open>
  Claim C7. The loop over the diagonal sets both bounds of every self-loop to 0, as its
  comment says (\<^verbatim>\<open>Diaganol should be 0 as it represent a self loop for a node\<close>). The
  deletion loop that follows runs over every pair \<open>(i, j)\<close>, the diagonal included, and
  overwrites the bounds of a self-loop with \<open>M\<close> when the draw \<open>dummy i i\<close> is not zero.
  Evaluated on the two-node draws: the self-loop of node 0 has the bounds 0 after the
  diagonal loop and 10000 in the generated graph. In the matrices that the notebook
  itself prints, 16 of the 20 self-loops carry 10000.
\<close>

theorem diagonal_overwritten:
  "fst (zero_diagonal 2 (ex_l0, ex_u0)) 0 0 = 0 \<and> snd (zero_diagonal 2 (ex_l0, ex_u0)) 0 0 = 0 \<and>
   ex_dummy 0 0 = 7 \<and>
   fst (generate 2 ex_l0 ex_u0 ex_dummy) 0 0 = 10000 \<and>
   snd (generate 2 ex_l0 ex_u0 ex_dummy) 0 0 = 10000 \<and>
   length (filter (\<lambda>i. l_nb i i = 10000 \<and> u_nb i i = 10000) [0..<20]) = 16"
proof -
  have "length (filter (\<lambda>i. l_nb i i = 10000 \<and> u_nb i i = 10000) [0..<20]) = 16"
    by code_simp
  then show ?thesis
    by (simp add: zero_diagonal_eq generate_eq ex_dummy_def ex_l0_def ex_u0_def M_def)
qed

section \<open>A graph without a path from source to target\<close>

lemma build_model_succeeds:
  assumes "s < N" and "t < N"
  shows "\<exists>m. build_model N l u s t = Inr m"
  using assms by (simp add: build_model_def Let_def)


lemma notebook_assertion:
  assumes "build_model N l u s t = Inr m"
  shows "(notebook N l u s t msol1 msol2 = Inl AssertionError) = (msol1 = None \<or> msol2 = None)"
    and "notebook N l u s t msol1 msol2 \<noteq> Inl KeyError"
  using assms by (auto simp: notebook_def Let_def split: option.splits)

lemma dead_generate: "generate 2 ex_l0 ex_u0 dead_dummy = (dead_l, dead_u)"
  by (simp add: dead_l_def dead_u_def)

lemma dead_values:
  "dead_l 0 0 = M" "dead_l 0 (Suc 0) = M" "dead_l (Suc 0) 0 = M" "dead_l (Suc 0) (Suc 0) = M"
  "dead_u 0 0 = M" "dead_u 0 (Suc 0) = M" "dead_u (Suc 0) 0 = M" "dead_u (Suc 0) (Suc 0) = M"
  by (simp_all add: dead_l_def dead_u_def generate_eq dead_dummy_def)

lemma dead_build: "build_model 2 dead_l dead_u 0 (Suc 0) = Inr dead_model"
  by (simp add: dead_model_def build_model_def)

lemma dead_nonneg: "\<forall>i<2. \<forall>j<2. 0 \<le> dead_l i j"
  by (simp add: less_2_all dead_values M_def)

lemma dead_feasible: "feasible dead_model dead_sol"
  using direct_feasible[OF dead_build _ dead_nonneg, of "real_of_int M"]
  by (simp add: dead_sol_def less_2_all dead_values M_def)


lemma dead_no_walk: "\<not> (\<exists>w. is_walk 2 0 w 1 \<and> arcs_exist dead_l dead_u w)"
proof
  assume "\<exists>w. is_walk 2 0 w 1 \<and> arcs_exist dead_l dead_u w"
  then obtain w where w: "is_walk 2 0 w 1" "arcs_exist dead_l dead_u w" by blast
  show False
  proof (cases w)
    case Nil
    with w(1) show False by (simp add: is_walk_def)
  next
    case (Cons i w')
    show False
    proof (cases w')
      case Nil
      with Cons w(1) show False by (auto simp: is_walk_def)
    next
      case (Cons j w'')
      with \<open>w = i # w'\<close> w(1) have "i < 2" "j < 2" by (simp_all add: is_walk_def)
      then have "i = 0 \<or> i = Suc 0" "j = 0 \<or> j = Suc 0" by auto
      then have "\<not> arc_exists dead_l dead_u i j"
        by (auto simp: arc_exists_def dead_values)
      with Cons \<open>w = i # w'\<close> w(2) show False by simp
    qed
  qed
qed

text \<open>
  Claim C8 fails as stated. With every draw of \<open>dummy\<close> non-zero the generated two-node
  graph has no sequence of arcs from the source to the target. Nothing is raised before
  the optimisation: the model is built, and it is feasible, because the deleted pair
  \<open>(0, 1)\<close> is still a variable of the model, with the bounds \<open>M\<close>. What the notebook can
  raise afterwards is the failed assertion of a solve that returned no solution.
\<close>

theorem no_path_counterexample:
  "generate 2 ex_l0 ex_u0 dead_dummy = (dead_l, dead_u) \<and>
   \<not> (\<exists>w. is_walk 2 0 w 1 \<and> arcs_exist dead_l dead_u w) \<and>
   build_model 2 dead_l dead_u 0 1 = Inr dead_model \<and> feasible dead_model dead_sol \<and>
   notebook 2 dead_l dead_u 0 1 (Some dead_sol) None = Inl AssertionError"
  using dead_generate dead_no_walk dead_build dead_feasible
    notebook_assertion(1)[OF dead_build, of "Some dead_sol" None]
  by simp

text \<open>
  Claim C8, amended. The notebook checks no reachability and knows no error for a missing
  path: the errors it can raise are \<open>KeyError\<close> and \<open>AssertionError\<close>, and a deleted arc
  stays in the model with both bounds \<open>M\<close>. For distinct nodes \<open>s\<close> and \<open>t\<close> below \<open>N\<close>
  and non-negative bounds, whether or not arcs lead from \<open>s\<close> to \<open>t\<close>, the model is built
  without an error and is feasible (select the pair \<open>(s, t)\<close> alone). After that the
  notebook fails only with \<open>AssertionError\<close>, and exactly when one of the two solves
  returns no solution.
\<close>

theorem no_reachability_check:
  assumes "s < N" and "t < N" and "s \<noteq> t"
    and "\<forall>i<N. \<forall>j<N. 0 \<le> l i j" and "0 \<le> u s t"
  shows "\<exists>m. build_model N l u s t = Inr m \<and> feasible m (direct_assignment s t 0) \<and>
           (\<forall>msol1 msol2.
              (notebook N l u s t msol1 msol2 = Inl AssertionError) = (msol1 = None \<or> msol2 = None) \<and>
              notebook N l u s t msol1 msol2 \<noteq> Inl KeyError)"
proof -
  obtain m where build: "build_model N l u s t = Inr m"
    using build_model_succeeds[OF assms(1,2)] by blast
  have feas: "feasible m (direct_assignment s t 0)"
    using direct_feasible[OF build assms(3,4), of 0] assms(4,5) \<open>t < N\<close> by simp
  show ?thesis
    using build feas notebook_assertion[OF build] by blast
qed

theorem no_reachability_check_witness:
  "(0::nat) < 2 \<and> (1::nat) < 2 \<and> (0::nat) \<noteq> 1 \<and> 0 \<le> dead_u 0 1 \<and>
   \<not> (\<exists>w. is_walk 2 0 w 1 \<and> arcs_exist dead_l dead_u w) \<and>
   (\<exists>m. build_model 2 dead_l dead_u 0 1 = Inr m \<and> feasible m (direct_assignment 0 1 0) \<and>
      (\<forall>msol1 msol2.
         (notebook 2 dead_l dead_u 0 1 msol1 msol2 = Inl AssertionError) = (msol1 = None \<or> msol2 = None) \<and>
         notebook 2 dead_l dead_u 0 1 msol1 msol2 \<noteq> Inl KeyError))"
proof -
  have "0 \<le> dead_u 0 1" by (simp add: dead_values M_def)
  then show ?thesis
    using no_reachability_check [of 0 2 1 dead_l dead_u] dead_nonneg dead_no_walk by simp
qed

section \<open>Distances and shortest paths\<close>

lemma distance_scenario_cost:
  assumes "domains_ok N a" and "distance_ok l u a i j" and "i < N" and "j < N"
  shows "a (Xvar j) \<le> a (Xvar i) + scenario_cost l u a i j"
  using domains_ok_binary[OF assms(1,3,4)] assms(2)
  by (auto simp: distance_ok_def scenario_cost_def)

lemma scenario_cost_distance:
  assumes "domains_ok N a" and "i < N" and "j < N"
    and "x j \<le> x i + scenario_cost l u a i j"
  shows "x j \<le> x i + real_of_int (l i j) + real_of_int (u i j - l i j) * a (Yvar i j)"
  using domains_ok_binary[OF assms(1-3)] assms(4)
  by (auto simp: scenario_cost_def)

text \<open>Along a walk the distance variable grows by at most the cost of the walk.\<close>

lemma walk_bound:
  assumes dom: "domains_ok N a" and dist: "\<forall>i<N. \<forall>j<N. distance_ok l u a i j"
  shows "w \<noteq> [] \<Longrightarrow> list_all (\<lambda>v. v < N) w \<Longrightarrow>
         a (Xvar (last w)) \<le> a (Xvar (hd w)) + walk_cost (scenario_cost l u a) w"
proof (induction w rule: induct_list012)
  case 1
  then show ?case by simp
next
  case (2 v)
  then show ?case by simp
next
  case (3 i j w)
  have "a (Xvar j) \<le> a (Xvar i) + scenario_cost l u a i j"
    using distance_scenario_cost[OF dom, of l u i j] dist "3.prems" by simp
  moreover have "a (Xvar (last (j # w))) \<le> a (Xvar j) + walk_cost (scenario_cost l u a) (j # w)"
    using "3.IH"(2) "3.prems" by simp
  ultimately show ?case by simp
qed

lemma feasible_walk_bound:
  assumes build: "build_model N l u s t = Inr m" and feas: "feasible m a"
    and w: "is_walk N s w j"
  shows "a (Xvar j) \<le> walk_cost (scenario_cost l u a) w"
proof -
  have dom: "domains_ok N a" and xs: "a (Xvar s) = 0"
    and dist: "\<forall>i<N. \<forall>j<N. distance_ok l u a i j"
    using feas by (auto simp: feasible_build_model[OF build])
  show ?thesis
    using walk_bound[OF dom dist, of w] w xs by (simp add: is_walk_def)
qed

lemma walk_cost_snoc:
  "w \<noteq> [] \<Longrightarrow> walk_cost c (w @ [j]) = walk_cost c w + c (last w) j"
  by (induction w rule: induct_list012) simp_all

lemma is_walk_snoc:
  assumes "is_walk N s w i" and "j < N"
  shows "is_walk N s (w @ [j]) j"
  using assms by (auto simp: is_walk_def)

lemma is_walk_single: "s < N \<Longrightarrow> is_walk N s [s] s"
  by (simp add: is_walk_def)

text \<open>Costs that are natural numbers have a least walk cost.\<close>

lemma walk_cost_nat:
  assumes "\<forall>i<N. \<forall>j<N. \<exists>n::nat. c i j = real n"
  shows "list_all (\<lambda>v. v < N) w \<Longrightarrow> \<exists>n::nat. walk_cost c w = real n"
proof (induction w rule: induct_list012)
  case 1
  show ?case by simp
next
  case (2 v)
  show ?case by simp
next
  case (3 i j w)
  then obtain n1 where "walk_cost c (j # w) = real n1" by auto
  moreover obtain n2 where "c i j = real n2" using assms "3.prems" by auto
  ultimately have "walk_cost c (i # j # w) = real (n2 + n1)" by simp
  then show ?case by blast
qed

lemma exists_shortest:
  assumes nat: "\<forall>i<N. \<forall>j<N. \<exists>n::nat. c i j = real n" and "s < N" and "j < N"
  shows "\<exists>d. shortest_distance N c s j d"
proof -
  define P where "P n \<longleftrightarrow> (\<exists>w. is_walk N s w j \<and> walk_cost c w = real n)" for n :: nat
  have w0: "is_walk N s ([s] @ [j]) j"
    by (rule is_walk_snoc[OF is_walk_single]) fact+
  then obtain n0 where "walk_cost c ([s] @ [j]) = real n0"
    using walk_cost_nat[OF nat, of "[s] @ [j]"] by (auto simp: is_walk_def)
  with w0 have "P n0" unfolding P_def by blast
  then have least: "P (LEAST n. P n)" by (rule LeastI)
  have "real (LEAST n. P n) \<le> walk_cost c w" if "is_walk N s w j" for w
  proof -
    have "list_all (\<lambda>v. v < N) w" using that by (simp add: is_walk_def)
    then obtain n where n: "walk_cost c w = real n"
      using walk_cost_nat[OF nat, of w] by blast
    with that have "P n" unfolding P_def by blast
    then have "(LEAST n. P n) \<le> n" by (rule Least_le)
    with n show ?thesis by simp
  qed
  with least show ?thesis
    unfolding shortest_distance_def P_def by blast
qed

lemma shortest_unique:
  assumes "shortest_distance N c s j d" and "shortest_distance N c s j d'"
  shows "d = d'"
  using assms unfolding shortest_distance_def by (meson order_antisym)

lemma shortest_triangle:
  assumes "shortest_distance N c s i di" and "shortest_distance N c s j dj" and "j < N"
  shows "dj \<le> di + c i j"
proof -
  obtain w where w: "is_walk N s w i" "walk_cost c w = di"
    using assms(1) unfolding shortest_distance_def by blast
  have "is_walk N s (w @ [j]) j" using is_walk_snoc[OF w(1) \<open>j < N\<close>] .
  then have "dj \<le> walk_cost c (w @ [j])"
    using assms(2) unfolding shortest_distance_def by blast
  also have "\<dots> = di + c i j"
    using w by (simp add: walk_cost_snoc is_walk_def)
  finally show ?thesis .
qed

lemma shortest_source:
  assumes nat: "\<forall>i<N. \<forall>j<N. \<exists>n::nat. c i j = real n" and "s < N"
  shows "shortest_distance N c s s 0"
proof -
  have "0 \<le> walk_cost c w" if "is_walk N s w s" for w
    using walk_cost_nat[OF nat, of w] that by (auto simp: is_walk_def)
  moreover have "walk_cost c [s] = 0" by simp
  ultimately show ?thesis
    unfolding shortest_distance_def using is_walk_single[OF \<open>s < N\<close>] by blast
qed

lemma shortest_nonneg:
  assumes nat: "\<forall>i<N. \<forall>j<N. \<exists>n::nat. c i j = real n" and "shortest_distance N c s j d"
  shows "0 \<le> d"
proof -
  obtain w where w: "is_walk N s w j" "walk_cost c w = d"
    using assms(2) unfolding shortest_distance_def by blast
  then show ?thesis
    using walk_cost_nat[OF nat, of w] by (auto simp: is_walk_def)
qed

lemma scenario_cost_nat:
  assumes "\<forall>i<N. \<forall>j<N. 0 \<le> l i j \<and> 0 \<le> u i j"
  shows "\<forall>i<N. \<forall>j<N. \<exists>n::nat. scenario_cost l u a i j = real n"
proof (intro allI impI)
  fix i j assume "i < N" "j < N"
  then have "0 \<le> (if a (Yvar i j) = 1 then u i j else l i j)"
    using assms by simp
  then obtain n where "(if a (Yvar i j) = 1 then u i j else l i j) = int n"
    using nonneg_int_cases by blast
  then have "scenario_cost l u a i j = real n"
    unfolding scenario_cost_def by simp
  then show "\<exists>n::nat. scenario_cost l u a i j = real n" by blast
qed

lemma optimal_imp_optimal_for_scenario: "optimal m a \<Longrightarrow> optimal_for_scenario N m a"
  by (simp add: optimal_def optimal_for_scenario_def)

text \<open>
  Replace the distance variables of a feasible assignment by the shortest-path distances
  of its scenario: the result is feasible again.
\<close>

lemma shortest_distances_feasible:
  assumes build: "build_model N l u s t = Inr m" and feas: "feasible m a"
    and nonneg: "\<forall>i<N. \<forall>j<N. 0 \<le> l i j \<and> 0 \<le> u i j"
    and D: "\<And>j. j < N \<Longrightarrow> shortest_distance N (scenario_cost l u a) s j (D j)"
  shows "feasible m (\<lambda>v. case v of Yvar i j \<Rightarrow> a (Yvar i j) | Xvar j \<Rightarrow> D j)"
proof -
  let ?a = "\<lambda>v. case v of Yvar i j \<Rightarrow> a (Yvar i j) | Xvar j \<Rightarrow> D j"
  have sN: "s < N" using build_model_vars(6)[OF build] .
  have dom: "domains_ok N a" and flow: "flow_conservation N s t a"
    using feas by (auto simp: feasible_build_model[OF build])
  note nat = scenario_cost_nat[OF nonneg, of a]
  have "0 \<le> D j" if "j < N" for j
    using shortest_nonneg[OF nat D[OF that]] .
  then have "domains_ok N ?a"
    using dom by (simp add: domains_ok_def)
  moreover have "?a (Xvar s) = 0"
    using shortest_unique[OF D[OF sN] shortest_source[OF nat sN]] by simp
  moreover have "distance_ok l u ?a i j" if "i < N" "j < N" for i j
    using scenario_cost_distance[OF dom that, of D l u] shortest_triangle[OF D[OF that(1)] D[OF that(2)] that(2)]
    by (simp add: distance_ok_def)
  moreover have "flow_conservation N s t ?a"
    using flow by (simp add: flow_conservation_def netout_def)
  ultimately show ?thesis
    by (simp add: feasible_build_model[OF build])
qed

lemma target_distance_is_shortest:
  assumes build: "build_model N l u s t = Inr m"
    and nonneg: "\<forall>i<N. \<forall>j<N. 0 \<le> l i j \<and> 0 \<le> u i j"
    and opt: "optimal_for_scenario N m a"
  shows "shortest_distance N (scenario_cost l u a) s t (a (Xvar t))"
proof -
  have sN: "s < N" and tN: "t < N" using build_model_vars(6,7)[OF build] .
  have feas: "feasible m a" using opt by (simp add: optimal_for_scenario_def)
  note nat = scenario_cost_nat[OF nonneg, of a]
  obtain D where D: "\<And>j. j < N \<Longrightarrow> shortest_distance N (scenario_cost l u a) s j (D j)"
    using exists_shortest[OF nat sN] by metis
  let ?a = "\<lambda>v. case v of Yvar i j \<Rightarrow> a (Yvar i j) | Xvar j \<Rightarrow> D j"
  have "feasible m ?a"
    using shortest_distances_feasible[OF build feas nonneg D] .
  moreover have "same_scenario N a ?a" by (simp add: same_scenario_def)
  ultimately have "objective_value m a \<le> objective_value m ?a"
    using opt by (simp add: optimal_for_scenario_def better_eq_def build_model_vars(3)[OF build])
  then have "D t \<le> a (Xvar t)"
    by (simp add: objective_build_model[OF build] upper_cost_def)
  moreover obtain w where w: "is_walk N s w t" "walk_cost (scenario_cost l u a) w = D t"
    using D[OF tN] unfolding shortest_distance_def by blast
  then have "a (Xvar t) \<le> D t"
    using feasible_walk_bound[OF build feas w(1)] by simp
  ultimately have "a (Xvar t) = D t" by simp
  then show ?thesis using D[OF tN] by simp
qed

section \<open>The three-node instance, evaluated\<close>

lemma less_3_all: "(\<forall>i<3::nat. P i) \<longleftrightarrow> P 0 \<and> P (Suc 0) \<and> P 2"
proof -
  have "i < 3 \<longleftrightarrow> i = 0 \<or> i = Suc 0 \<or> i = 2" for i :: nat by auto
  then show ?thesis by auto
qed

lemma ex3_build: "build_model 3 ex3_l ex3_u 0 2 = Inr ex3_model"
  by (simp add: ex3_model_def build_model_def)

lemma ex3_optimal: "optimal ex3_model ex3_sol"
  using single_arc_optimum(1)[OF ex3_build]
  by (simp add: ex3_sol_def ex3_l_def ex3_u_def M_def)

lemma ex3_feasible_5: "feasible ex3_model (ex3_sol(Xvar 1 := 5))"
proof -
  have "feasible ex3_model ex3_sol" using ex3_optimal by (simp add: optimal_def)
  then have "domains_ok 3 ex3_sol" and "flow_conservation 3 0 2 ex3_sol"
    by (simp_all add: feasible_build_model[OF ex3_build])
  then have "domains_ok 3 (ex3_sol(Xvar 1 := 5))" and "flow_conservation 3 0 2 (ex3_sol(Xvar 1 := 5))"
    by (simp_all add: domains_ok_def flow_conservation_def netout_def)
  moreover have "\<forall>i<3. \<forall>j<3. distance_ok ex3_l ex3_u (ex3_sol(Xvar 1 := 5)) i j"
    unfolding less_3_all
    by (simp add: distance_ok_def ex3_sol_def direct_assignment_simps ex3_l_def ex3_u_def M_def)
  ultimately show ?thesis
    by (simp add: feasible_build_model[OF ex3_build] ex3_sol_def direct_assignment_simps)
qed

lemma scenario_cost_Xvar_update: "scenario_cost l u (a(Xvar k := x)) = scenario_cost l u a"
  by (simp add: scenario_cost_def fun_eq_iff)

lemma ex3_distance_1: "shortest_distance 3 (scenario_cost ex3_l ex3_u ex3_sol) 0 1 5"
proof -
  have "5 \<le> walk_cost (scenario_cost ex3_l ex3_u ex3_sol) w" if "is_walk 3 0 w 1" for w
    using feasible_walk_bound[OF ex3_build ex3_feasible_5 that]
    by (simp add: scenario_cost_Xvar_update)
  moreover have "is_walk 3 0 [0, 1] 1" by (simp add: is_walk_def)
  moreover have "walk_cost (scenario_cost ex3_l ex3_u ex3_sol) [0, 1] = 5"
    by (simp add: scenario_cost_def ex3_sol_def direct_assignment_simps ex3_l_def)
  ultimately show ?thesis
    unfolding shortest_distance_def by blast
qed

text \<open>
  Claim C1 fails as stated. In the three-node instance the assignment that selects the
  arc \<open>0 \<rightarrow> 2\<close> is optimal. Node 1 is reached from the source by the arc \<open>0 \<rightarrow> 1\<close>, and its
  shortest-path distance under the scenario is 5; the optimal assignment gives it 0.
\<close>

theorem distance_counterexample:
  "build_model 3 ex3_l ex3_u 0 2 = Inr ex3_model \<and> optimal ex3_model ex3_sol \<and>
   is_walk 3 0 [0, 1] 1 \<and> arcs_exist ex3_l ex3_u [0, 1] \<and>
   shortest_distance 3 (scenario_cost ex3_l ex3_u ex3_sol) 0 1 5 \<and>
   ex3_sol (Xvar 1) = 0"
  using ex3_build ex3_optimal ex3_distance_1
  by (simp add: is_walk_def arc_exists_def ex3_l_def M_def ex3_sol_def direct_assignment_simps)

text \<open>
  Claim C1, amended. Let the bounds be non-negative. Under any feasible assignment, \<open>X[j]\<close>
  is at most the cost of every walk from \<open>s\<close> to \<open>j\<close> at the effective costs of the
  scenario, so at most the shortest-path distance of \<open>j\<close>. At an assignment that is
  optimal for its scenario, and so at every optimal assignment, the distance \<open>X[t]\<close> of
  the target is the shortest-path distance from \<open>s\<close> to \<open>t\<close>.
\<close>

theorem distance_amended:
  assumes "build_model N l u s t = Inr m"
    and "\<forall>i<N. \<forall>j<N. 0 \<le> l i j \<and> 0 \<le> u i j"
    and "feasible m a"
  shows "(\<forall>j w. is_walk N s w j \<longrightarrow> a (Xvar j) \<le> walk_cost (scenario_cost l u a) w) \<and>
         (optimal_for_scenario N m a \<longrightarrow>
            shortest_distance N (scenario_cost l u a) s t (a (Xvar t))) \<and>
         (optimal m a \<longrightarrow> shortest_distance N (scenario_cost l u a) s t (a (Xvar t)))"
  using feasible_walk_bound[OF assms(1,3)] target_distance_is_shortest[OF assms(1,2)]
    optimal_imp_optimal_for_scenario[of m a N]
  by blast

theorem distance_amended_witness:
  "build_model 3 ex3_l ex3_u 0 2 = Inr ex3_model \<and> feasible ex3_model ex3_sol \<and>
   optimal ex3_model ex3_sol \<and> is_walk 3 0 [0, 1] 1 \<and>
   ex3_sol (Xvar 1) \<le> walk_cost (scenario_cost ex3_l ex3_u ex3_sol) [0, 1] \<and>
   shortest_distance 3 (scenario_cost ex3_l ex3_u ex3_sol) 0 2 21"
proof -
  have feas: "feasible ex3_model ex3_sol" using ex3_optimal by (simp add: optimal_def)
  have nonneg: "\<forall>i<3. \<forall>j<3. 0 \<le> ex3_l i j \<and> 0 \<le> ex3_u i j"
    by (simp add: ex3_l_def ex3_u_def M_def)
  have walk: "is_walk 3 0 [0, 1] 1" by (simp add: is_walk_def)
  have x2: "ex3_sol (Xvar 2) = 21" by (simp add: ex3_sol_def direct_assignment_simps)
  note am = distance_amended [OF ex3_build nonneg feas]
  have "ex3_sol (Xvar 1) \<le> walk_cost (scenario_cost ex3_l ex3_u ex3_sol) [0, 1]"
    using am walk by blast
  moreover have "shortest_distance 3 (scenario_cost ex3_l ex3_u ex3_sol) 0 2 21"
    using am ex3_optimal x2 by simp
  ultimately show ?thesis
    using ex3_build feas ex3_optimal walk by simp
qed

section \<open>Feasibility and lower bounds by computation\<close>

lemma list_all_upt: "list_all P [0..<N] \<longleftrightarrow> (\<forall>i<N. P i)"
  by (auto simp: list_all_iff)

lemma int_assignment_simps:
  "int_assignment Y X (Yvar i j) = real_of_int (Y i j)"
  "int_assignment Y X (Xvar j) = real_of_int (X j)"
  by (simp_all add: int_assignment_def)

lemma netout_int_assignment:
  "netout N (int_assignment Y X) j = real_of_int (netout_int N Y j)"
  by (simp add: netout_def netout_int_def int_assignment_simps sum_list_upt)







section \<open>The instance of the notebook, evaluated\<close>













section \<open>The two solves of the notebook\<close>




section \<open>The bounds of the Benders loop\<close>

lemma le_LB_raise: "le_LB lb (raise_LB lb z)"
  by (cases lb) (simp_all add: le_LB_def raise_LB_def)

lemma le_UB_lower: "le_UB (lower_UB ub z) ub"
  by (cases ub) (simp_all add: le_UB_def lower_UB_def)

lemma le_LB_refl: "le_LB lb lb"
  by (cases lb) (simp_all add: le_LB_def)

lemma le_UB_refl: "le_UB ub ub"
  by (cases ub) (simp_all add: le_UB_def)

text \<open>What a pass leaves in the state.\<close>

lemma finish_pass_fields:
  "LB (finish_pass orc N u t tol max_iter st Y lb) = lb"
  "UB (finish_pass orc N u t tol max_iter st Y lb) =
     lower_UB (UB st) (Z_sub N u Y (potential (subproblem orc Y) t))"
  "iteration (finish_pass orc N u t tol max_iter st Y lb) = Suc (iteration st)"
  "cut_store (finish_pass orc N u t tol max_iter st Y lb) = cut_store st \<or>
   cut_store (finish_pass orc N u t tol max_iter st Y lb) =
     cut_store st @ [tight_walk (subproblem orc Y)]"
  by (simp_all add: finish_pass_def Let_def)

lemma finish_pass_phase:
  "phase (finish_pass orc N u t tol max_iter st Y lb) =
     (if converged tol lb (lower_UB (UB st) (Z_sub N u Y (potential (subproblem orc Y) t)))
      then CONVERGED
      else if max_iter < Suc (iteration st) then FAILED IterationLimitExceeded
      else phase st)"
  by (simp add: finish_pass_def Let_def)

lemma finish_pass_store:
  "cut_store (finish_pass orc N u t tol max_iter st Y lb) =
     (if converged tol lb (lower_UB (UB st) (Z_sub N u Y (potential (subproblem orc Y) t)))
      then cut_store st else cut_store st @ [tight_walk (subproblem orc Y)])"
  by (simp add: finish_pass_def Let_def)

lemma iterate_cases:
  obtains (idle) "phase st \<noteq> ITERATING" "iterate orc N u t tol max_iter st = st"
  | (infeasible) "phase st = ITERATING" "master orc (cut_store st) = INFEASIBLE"
      "iterate orc N u t tol max_iter st =
         st\<lparr>iteration := Suc (iteration st), phase := FAILED MasterInfeasible\<rparr>"
  | (optimal) Y Z where "phase st = ITERATING" "master orc (cut_store st) = OPTIMAL Y Z"
      "iterate orc N u t tol max_iter st =
         finish_pass orc N u t tol max_iter st Y (raise_LB (LB st) Z)"
  | (unbounded) Y where "phase st = ITERATING" "master orc (cut_store st) = UNBOUNDED Y"
      "iterate orc N u t tol max_iter st = finish_pass orc N u t tol max_iter st Y (LB st)"
proof (cases "phase st = ITERATING")
  case False
  then show ?thesis using idle by (simp add: iterate_def)
next
  case True
  show ?thesis
  proof (cases "master orc (cut_store st)")
    case (OPTIMAL Y Z)
    then show ?thesis using optimal[of Y Z] True by (simp add: iterate_def)
  next
    case (UNBOUNDED Y)
    then show ?thesis using unbounded[of Y] True by (simp add: iterate_def)
  next
    case INFEASIBLE
    then show ?thesis using infeasible True by (simp add: iterate_def)
  qed
qed

text \<open>Each bound moves in one direction only, whatever the collaborators answer.\<close>

lemma iterate_LB: "le_LB (LB st) (LB (iterate orc N u t tol max_iter st))"
  by (cases rule: iterate_cases[of st orc N u t tol max_iter])
    (simp_all add: finish_pass_fields le_LB_refl le_LB_raise)

lemma iterate_UB: "le_UB (UB (iterate orc N u t tol max_iter st)) (UB st)"
  by (cases rule: iterate_cases[of st orc N u t tol max_iter])
    (simp_all add: finish_pass_fields le_UB_refl le_UB_lower)

text \<open>
  On a scenario with values 0 and 1 the right-hand side of a cut is the cost of its path
  under the effective costs of the scenario.
\<close>

lemma is_flow_binary: "is_flow N s t Y \<Longrightarrow> i < N \<Longrightarrow> j < N \<Longrightarrow> Y i j = 0 \<or> Y i j = 1"
  by (simp add: is_flow_def list_all_upt)

lemma cut_rhs_effective:
  assumes "\<forall>i<N. \<forall>j<N. Y i j = 0 \<or> Y i j = 1"
  shows "list_all (\<lambda>v. v < N) w \<Longrightarrow> cut_rhs l u Y w = walk_cost (effective_cost l u Y) w"
  unfolding cut_rhs_def
proof (induction w rule: induct_list012)
  case 1
  show ?case by simp
next
  case (2 v)
  show ?case by simp
next
  case (3 i j w)
  have "Y i j = 0 \<or> Y i j = 1" using assms "3.prems" by simp
  then have "real_of_int (l i j) + real_of_int (u i j - l i j) * real_of_int (Y i j) =
             effective_cost l u Y i j"
    by (auto simp: effective_cost_def)
  then show ?case using "3.IH"(2) "3.prems" by simp
qed

text \<open>
  A flow with the shortest distance of the target under its own effective costs is a
  solution of the master program, whatever paths the cuts come from.
\<close>

lemma master_feasible_shortest:
  assumes flow: "is_flow N s t Y" and d: "shortest_distance N (effective_cost l u Y) s t d"
    and cuts: "\<forall>w\<in>set cuts. is_walk N s w t"
  shows "master_feasible N l u s t cuts Y d"
proof -
  have "d \<le> cut_rhs l u Y w" if "w \<in> set cuts" for w
  proof -
    have w: "is_walk N s w t" using cuts that by simp
    then have "cut_rhs l u Y w = walk_cost (effective_cost l u Y) w"
      using cut_rhs_effective[of N Y w l u] is_flow_binary[OF flow] by (simp add: is_walk_def)
    then show ?thesis using d w by (simp add: shortest_distance_def)
  qed
  then show ?thesis using flow by (simp add: master_feasible_def list_all_iff)
qed

text \<open>
  The invariant of the loop: the cuts of the store come from paths from \<open>s\<close> to \<open>t\<close>; a
  finite \<open>LB\<close> is at most the regret of every flow; a finite \<open>UB\<close> is the regret of some
  flow.
\<close>

lemma iterate_invariant:
  assumes cuts: "\<forall>w\<in>set (cut_store st). is_walk N s w t"
    and lb: "\<forall>a. LB st = Some a \<longrightarrow>
               (\<forall>Y d. is_flow N s t Y \<longrightarrow> shortest_distance N (effective_cost l u Y) s t d
                       \<longrightarrow> a \<le> Z_sub N u Y d)"
    and ub: "\<forall>b. UB st = Some b \<longrightarrow>
               (\<exists>Y d. is_flow N s t Y \<and> shortest_distance N (effective_cost l u Y) s t d
                       \<and> b = Z_sub N u Y d)"
    and ok: "phase st = ITERATING \<longrightarrow> answers_ok orc N l u s t (cut_store st)"
    and "t < N"
  shows "(\<forall>w\<in>set (cut_store (iterate orc N u t tol max_iter st)). is_walk N s w t) \<and>
         (\<forall>a. LB (iterate orc N u t tol max_iter st) = Some a \<longrightarrow>
               (\<forall>Y d. is_flow N s t Y \<longrightarrow> shortest_distance N (effective_cost l u Y) s t d
                       \<longrightarrow> a \<le> Z_sub N u Y d)) \<and>
         (\<forall>b. UB (iterate orc N u t tol max_iter st) = Some b \<longrightarrow>
               (\<exists>Y d. is_flow N s t Y \<and> shortest_distance N (effective_cost l u Y) s t d
                       \<and> b = Z_sub N u Y d))"
proof -
  have step: ?thesis
    if it: "iterate orc N u t tol max_iter st = finish_pass orc N u t tol max_iter st Y lb'"
      and flow: "is_flow N s t Y"
      and sub: "subproblem_ok N l u s t Y (subproblem orc Y)"
      and lb': "\<forall>a. lb' = Some a \<longrightarrow>
               (\<forall>Y d. is_flow N s t Y \<longrightarrow> shortest_distance N (effective_cost l u Y) s t d
                       \<longrightarrow> a \<le> Z_sub N u Y d)"
    for Y lb'
  proof -
    let ?x = "subproblem orc Y"
    have dist: "shortest_distance N (effective_cost l u Y) s t (potential ?x t)"
      and walk: "is_walk N s (tight_walk ?x) t"
      using sub \<open>t < N\<close> by (simp_all add: subproblem_ok_def)
    have 1: "\<forall>w\<in>set (cut_store (finish_pass orc N u t tol max_iter st Y lb')). is_walk N s w t"
      using cuts walk by (simp add: finish_pass_store)
    have 3: "\<exists>Y' d. is_flow N s t Y' \<and> shortest_distance N (effective_cost l u Y') s t d
                     \<and> b = Z_sub N u Y' d"
      if "UB (finish_pass orc N u t tol max_iter st Y lb') = Some b" for b
    proof (cases "UB st")
      case None
      then have "b = Z_sub N u Y (potential ?x t)"
        using that by (simp add: finish_pass_fields lower_UB_def)
      then show ?thesis using flow dist by blast
    next
      case (Some b0)
      then have "b = min b0 (Z_sub N u Y (potential ?x t))"
        using that by (simp add: finish_pass_fields lower_UB_def)
      then consider "b = b0" | "b = Z_sub N u Y (potential ?x t)"
        by (auto simp: min_def split: if_splits)
      then show ?thesis
      proof cases
        case 1
        then show ?thesis using ub Some by simp
      next
        case 2
        then show ?thesis using flow dist by blast
      qed
    qed
    show ?thesis
      unfolding it using 1 3 lb' by (simp add: finish_pass_fields(1))
  qed
  show ?thesis
  proof (cases rule: iterate_cases[of st orc N u t tol max_iter])
    case idle
    then show ?thesis using cuts lb ub by simp
  next
    case infeasible
    then show ?thesis using cuts lb ub by simp
  next
    case (optimal Y Z)
    have ans: "answers_ok orc N l u s t (cut_store st)" using ok optimal(1) by simp
    then have m: "master_ok N l u s t (cut_store st) (OPTIMAL Y Z)"
      and sub: "subproblem_ok N l u s t Y (subproblem orc Y)"
      using optimal(2) by (simp_all add: answers_ok_def)
    from m obtain \<eta> where feas: "master_feasible N l u s t (cut_store st) Y \<eta>"
      and least: "\<And>Y' \<eta>'. master_feasible N l u s t (cut_store st) Y' \<eta>'
                    \<Longrightarrow> Z \<le> master_objective N u Y' \<eta>'"
      by (auto simp: master_ok_def)
    have flow: "is_flow N s t Y" using feas by (simp add: master_feasible_def)
    have Z: "Z \<le> Z_sub N u Y' d"
      if "is_flow N s t Y'" "shortest_distance N (effective_cost l u Y') s t d" for Y' d
      using least[OF master_feasible_shortest[OF that cuts]]
      by (simp add: master_objective_def Z_sub_def)
    have "\<forall>a. raise_LB (LB st) Z = Some a \<longrightarrow>
               (\<forall>Y d. is_flow N s t Y \<longrightarrow> shortest_distance N (effective_cost l u Y) s t d
                       \<longrightarrow> a \<le> Z_sub N u Y d)"
    proof (cases "LB st")
      case None
      then show ?thesis using Z by (simp add: raise_LB_def)
    next
      case (Some a0)
      then show ?thesis using Z lb by (simp add: raise_LB_def)
    qed
    then show ?thesis by (rule step[OF optimal(3) flow sub])
  next
    case (unbounded Y)
    have ans: "answers_ok orc N l u s t (cut_store st)" using ok unbounded(1) by simp
    then have m: "master_ok N l u s t (cut_store st) (UNBOUNDED Y)"
      and sub: "subproblem_ok N l u s t Y (subproblem orc Y)"
      using unbounded(2) by (simp_all add: answers_ok_def)
    have flow: "is_flow N s t Y" using m by (simp add: master_ok_def)
    show ?thesis by (rule step[OF unbounded(3) flow sub lb])
  qed
qed

lemma collaborators_ok_Suc:
  "collaborators_ok orc N l u s t tol max_iter (Suc n) \<Longrightarrow>
   collaborators_ok orc N l u s t tol max_iter n"
  by (simp add: collaborators_ok_def)

lemma collaborators_ok_at:
  "collaborators_ok orc N l u s t tol max_iter (Suc n) \<Longrightarrow>
   phase (passes orc N u t tol max_iter n seed) = ITERATING \<Longrightarrow>
   answers_ok orc N l u s t (cut_store (passes orc N u t tol max_iter n seed))"
  by (simp add: collaborators_ok_def)

lemma passes_invariant:
  assumes "t < N"
  shows "collaborators_ok orc N l u s t tol max_iter n \<Longrightarrow>
         (\<forall>w\<in>set (cut_store (passes orc N u t tol max_iter n seed)). is_walk N s w t) \<and>
         (\<forall>a. LB (passes orc N u t tol max_iter n seed) = Some a \<longrightarrow>
               (\<forall>Y d. is_flow N s t Y \<longrightarrow> shortest_distance N (effective_cost l u Y) s t d
                       \<longrightarrow> a \<le> Z_sub N u Y d)) \<and>
         (\<forall>b. UB (passes orc N u t tol max_iter n seed) = Some b \<longrightarrow>
               (\<exists>Y d. is_flow N s t Y \<and> shortest_distance N (effective_cost l u Y) s t d
                       \<and> b = Z_sub N u Y d))"
proof (induction n)
  case 0
  show ?case by (simp add: seed_def)
next
  case (Suc n)
  note IH = Suc.IH[OF collaborators_ok_Suc[OF Suc.prems]]
  show ?case
    unfolding passes.simps
    by (rule iterate_invariant[OF _ _ _ _ \<open>t < N\<close>])
      (use IH collaborators_ok_at[OF Suc.prems] in blast)+
qed

lemma INIT_Inr:
  assumes "INIT N l u s t = Inr st"
  shows "st = seed" and "valid_instance N l u s t" and "reachable N l u s t"
  using assms by (auto simp: INIT_def split: if_splits)

lemma run_Inr:
  assumes "run orc N l u s t tol max_iter n = Inr st"
  shows "INIT N l u s t = Inr seed" and "st = passes orc N u t tol max_iter n seed"
  using assms INIT_Inr(1)[of N l u s t]
  by (auto simp: run_def split: sum.splits)

text \<open>
  Claim C6. Take two consecutive states of the loop, after \<open>i\<close> and after \<open>i + 1\<close> passes,
  with collaborators that keep their contracts. Then \<open>LB\<close> has not decreased and \<open>UB\<close> has
  not increased, and when both are finite after the later pass, \<open>LB \<le> UB\<close>: the chain
  \<open>LB\<^sub>i \<le> LB\<^sub>i\<^sub>+\<^sub>1 \<le> UB\<^sub>i\<^sub>+\<^sub>1 \<le> UB\<^sub>i\<close>.
\<close>

theorem bounds_monotone:
  assumes "run orc N l u s t tol max_iter i = Inr st"
    and "run orc N l u s t tol max_iter (Suc i) = Inr st'"
    and "collaborators_ok orc N l u s t tol max_iter (Suc i)"
  shows "le_LB (LB st) (LB st') \<and> le_UB (UB st') (UB st) \<and>
         (\<forall>a b. LB st' = Some a \<and> UB st' = Some b \<longrightarrow> a \<le> b)"
proof -
  have st: "st = passes orc N u t tol max_iter i seed"
    and st': "st' = iterate orc N u t tol max_iter st"
    and init: "INIT N l u s t = Inr seed"
    using run_Inr[OF assms(1)] run_Inr[OF assms(2)] by simp_all
  have "t < N" using INIT_Inr(2)[OF init] by (simp add: valid_instance_def)
  have inv: "(\<forall>a. LB st' = Some a \<longrightarrow>
               (\<forall>Y d. is_flow N s t Y \<longrightarrow> shortest_distance N (effective_cost l u Y) s t d
                       \<longrightarrow> a \<le> Z_sub N u Y d))"
    "(\<forall>b. UB st' = Some b \<longrightarrow>
               (\<exists>Y d. is_flow N s t Y \<and> shortest_distance N (effective_cost l u Y) s t d
                       \<and> b = Z_sub N u Y d))"
    using passes_invariant[OF \<open>t < N\<close> assms(3)] run_Inr(2)[OF assms(2)] by simp_all
  have "a \<le> b" if "LB st' = Some a" "UB st' = Some b" for a b
    using inv that by blast
  then show ?thesis
    unfolding st' using iterate_LB iterate_UB by blast
qed

section \<open>Flows and potentials\<close>

lemma potential_walk_bound:
  fixes p :: "nat \<Rightarrow> real"
  assumes "\<forall>i<N. \<forall>j<N. p j \<le> p i + c i j"
  shows "w \<noteq> [] \<Longrightarrow> list_all (\<lambda>v. v < N) w \<Longrightarrow> p (last w) \<le> p (hd w) + walk_cost c w"
proof (induction w rule: induct_list012)
  case 1
  then show ?case by simp
next
  case (2 v)
  then show ?case by simp
next
  case (3 i j w)
  have "p j \<le> p i + c i j" using assms "3.prems" by simp
  moreover have "p (last (j # w)) \<le> p j + walk_cost c (j # w)"
    using "3.IH"(2) "3.prems" by simp
  ultimately show ?case by simp
qed

lemma shortest_distanceI:
  fixes p :: "nat \<Rightarrow> real"
  assumes "\<forall>i<N. \<forall>j<N. p j \<le> p i + c i j" and "p s = 0"
    and "is_walk N s w j" and "walk_cost c w = p j"
  shows "shortest_distance N c s j (p j)"
proof -
  have "p j \<le> walk_cost c w'" if "is_walk N s w' j" for w'
    using potential_walk_bound[OF assms(1), of w'] that assms(2) by (simp add: is_walk_def)
  then show ?thesis
    using assms(3,4) unfolding shortest_distance_def by blast
qed

lemma is_flow_conservation:
  assumes "is_flow N s t Y"
  shows "flow_conservation N s t (int_assignment Y X)"
  using assms
  by (auto simp: is_flow_def flow_conservation_def netout_int_assignment list_all_upt)



section \<open>The loop on the three-node graph\<close>

lemma sum_less_3: "(\<Sum>i<3::nat. f i) = f 0 + f (Suc 0) + f 2"
  by (simp add: numeral_3_eq_3 numeral_2_eq_2)

lemma bx_upper_sum:
  "upper_sum 3 bx_u Y =
     real_of_int (20 * Y 0 (Suc 0) + 20 * Y (Suc 0) 2 + 25 * Y 0 2 +
                  10000 * Y (Suc 0) 0 + 10000 * Y 2 0 + 10000 * Y 2 (Suc 0))"
  by (simp add: upper_sum_def sum_less_3 bx_u_def M_def)

lemma bx_cut_rhs:
  "cut_rhs bx_l bx_u Y [0, 2] = real_of_int (9 + 16 * Y 0 2)"
  "cut_rhs bx_l bx_u Y [0, Suc 0, 2] = real_of_int (2 + 19 * Y 0 (Suc 0) + 19 * Y (Suc 0) 2)"
  by (simp_all add: cut_rhs_def bx_l_def bx_u_def)

lemma bx_flows: "is_flow 3 0 2 bx_via" "is_flow 3 0 2 bx_direct"
  by code_simp+

lemma bx_INIT: "INIT 3 bx_l bx_u 0 2 = Inr seed"
proof -
  have "valid_instance 3 bx_l bx_u 0 2" by code_simp
  moreover have "reachable 3 bx_l bx_u 0 2" by code_simp
  ultimately show ?thesis by (simp add: INIT_def)
qed

text \<open>What a flow of the three-node graph obeys, written out.\<close>

lemma bx_flow_facts:
  assumes "is_flow 3 0 2 Y"
  shows "Y 0 2 + Y (Suc 0) 2 = 1 + Y 2 0 + Y 2 (Suc 0)"
    and "Y 0 (Suc 0) + Y 0 2 = 1 + Y (Suc 0) 0 + Y 2 0"
    and "Y 0 (Suc 0) + Y 2 (Suc 0) = Y (Suc 0) 0 + Y (Suc 0) 2"
    and "0 \<le> Y 0 (Suc 0)" "0 \<le> Y 0 2" "0 \<le> Y (Suc 0) 0" "0 \<le> Y (Suc 0) 2" "0 \<le> Y 2 0"
      "0 \<le> Y 2 (Suc 0)"
    and "Y 0 2 = 0 \<or> Y 0 2 = 1"
proof -
  have net: "netout_int 3 Y 0 = 1" "netout_int 3 Y 2 = - 1" "netout_int 3 Y (Suc 0) = 0"
    using assms by (simp_all add: is_flow_def list_all_upt less_3_all)
  have expand: "netout_int 3 Y j =
      Y j 0 + Y j (Suc 0) + Y j 2 - (Y 0 j + Y (Suc 0) j + Y 2 j)" for j
    by (simp add: netout_int_def numeral_3_eq_3 numeral_2_eq_2 upt_rec)
  show "Y 0 2 + Y (Suc 0) 2 = 1 + Y 2 0 + Y 2 (Suc 0)"
    and "Y 0 (Suc 0) + Y 0 2 = 1 + Y (Suc 0) 0 + Y 2 0"
    and "Y 0 (Suc 0) + Y 2 (Suc 0) = Y (Suc 0) 0 + Y (Suc 0) 2"
    using net unfolding expand by simp_all
  have bin: "Y i j = 0 \<or> Y i j = 1" if "i < 3" "j < 3" for i j
    using is_flow_binary[OF assms that] .
  show "0 \<le> Y 0 (Suc 0)" "0 \<le> Y 0 2" "0 \<le> Y (Suc 0) 0" "0 \<le> Y (Suc 0) 2" "0 \<le> Y 2 0"
      "0 \<le> Y 2 (Suc 0)"
    using bin[of 0 "Suc 0"] bin[of 0 2] bin[of "Suc 0" 0] bin[of "Suc 0" 2] bin[of 2 0]
      bin[of 2 "Suc 0"] by auto
  show "Y 0 2 = 0 \<or> Y 0 2 = 1" using bin[of 0 2] by simp
qed

text \<open>The master without a cut has no finite value.\<close>

lemma master_unbounded_Nil:
  assumes "is_flow N s t Y"
  shows "master_ok N l u s t [] (UNBOUNDED Y)"
proof -
  have "\<exists>Y' \<eta>'. master_feasible N l u s t [] Y' \<eta>' \<and> master_objective N u Y' \<eta>' < B" for B
  proof (intro exI conjI)
    show "master_feasible N l u s t [] Y (upper_sum N u Y - B + 1)"
      using assms by (simp add: master_feasible_def)
    show "master_objective N u Y (upper_sum N u Y - B + 1) < B"
      by (simp add: master_objective_def)
  qed
  then show ?thesis using assms by (simp add: master_ok_def)
qed


lemma bx_master_1: "master_ok 3 bx_l bx_u 0 2 [[0, 2]] (OPTIMAL bx_direct 0)"
proof -
  have "master_feasible 3 bx_l bx_u 0 2 [[0, 2]] bx_direct 25"
    by (simp add: master_feasible_def bx_flows bx_cut_rhs) (simp add: bx_direct_def)
  moreover have "0 = master_objective 3 bx_u bx_direct 25"
    by (simp add: master_objective_def bx_upper_sum) (simp add: bx_direct_def)
  moreover have "0 \<le> master_objective 3 bx_u Y \<eta>"
    if "master_feasible 3 bx_l bx_u 0 2 [[0, 2]] Y \<eta>" for Y \<eta>
  proof -
    have flow: "is_flow 3 0 2 Y" and cut: "\<eta> \<le> real_of_int (9 + 16 * Y 0 2)"
      using that by (simp_all add: master_feasible_def bx_cut_rhs)
    note f = bx_flow_facts[OF flow]
    have "9 + 16 * Y 0 2 \<le> 20 * Y 0 (Suc 0) + 20 * Y (Suc 0) 2 + 25 * Y 0 2 +
                  10000 * Y (Suc 0) 0 + 10000 * Y 2 0 + 10000 * Y 2 (Suc 0)"
      using f by linarith
    then have "real_of_int (9 + 16 * Y 0 2) \<le> upper_sum 3 bx_u Y"
      unfolding bx_upper_sum by (simp only: of_int_le_iff)
    then show ?thesis using cut by (simp add: master_objective_def)
  qed
  ultimately show ?thesis unfolding master_ok_def by (simp only: master_answer.case) blast
qed

lemma bx_master_2: "master_ok 3 bx_l bx_u 0 2 [[0, 2], [0, 1, 2]] (OPTIMAL bx_direct 23)"
proof -
  have "master_feasible 3 bx_l bx_u 0 2 [[0, 2], [0, 1, 2]] bx_direct 2"
    by (simp add: master_feasible_def bx_flows bx_cut_rhs) (simp add: bx_direct_def)
  moreover have "23 = master_objective 3 bx_u bx_direct 2"
    by (simp add: master_objective_def bx_upper_sum) (simp add: bx_direct_def)
  moreover have "23 \<le> master_objective 3 bx_u Y \<eta>"
    if "master_feasible 3 bx_l bx_u 0 2 [[0, 2], [0, 1, 2]] Y \<eta>" for Y \<eta>
  proof -
    have flow: "is_flow 3 0 2 Y" and cut1: "\<eta> \<le> real_of_int (9 + 16 * Y 0 2)"
      and cut2: "\<eta> \<le> real_of_int (2 + 19 * Y 0 (Suc 0) + 19 * Y (Suc 0) 2)"
      using that by (simp_all add: master_feasible_def bx_cut_rhs)
    note f = bx_flow_facts[OF flow]
    define U where "U = 20 * Y 0 (Suc 0) + 20 * Y (Suc 0) 2 + 25 * Y 0 2 +
                  10000 * Y (Suc 0) 0 + 10000 * Y 2 0 + 10000 * Y 2 (Suc 0)"
    have U: "upper_sum 3 bx_u Y = real_of_int U"
      unfolding U_def by (rule bx_upper_sum)
    from f(10) show ?thesis
    proof
      assume y: "Y 0 2 = 0"
      have "23 + (9 + 16 * Y 0 2) \<le> U"
        unfolding U_def using f y by linarith
      then have "real_of_int (23 + (9 + 16 * Y 0 2)) \<le> real_of_int U"
        by (simp only: of_int_le_iff)
      then show ?thesis using cut1 by (simp add: master_objective_def U)
    next
      assume y: "Y 0 2 = 1"
      have "23 + (2 + 19 * Y 0 (Suc 0) + 19 * Y (Suc 0) 2) \<le> U"
        unfolding U_def using f y by linarith
      then have "real_of_int (23 + (2 + 19 * Y 0 (Suc 0) + 19 * Y (Suc 0) 2)) \<le> real_of_int U"
        by (simp only: of_int_le_iff)
      then show ?thesis using cut2 by (simp add: master_objective_def U)
    qed
  qed
  ultimately show ?thesis unfolding master_ok_def by (simp only: master_answer.case) blast
qed

lemma bx_sub_via:
  "subproblem_ok 3 bx_l bx_u 0 2 bx_via (subproblem bx_oracles bx_via)"
proof -
  let ?p = "\<lambda>j::nat. if j = 0 then 0 else if j = 1 then 20 else (9::real)"
  let ?c = "effective_cost bx_l bx_u bx_via"
  have ans: "subproblem bx_oracles bx_via = \<lparr>potential = ?p, tight_walk = [0, 2]\<rparr>"
    by (simp add: bx_oracles_def bx_via_def)
  have pot: "\<forall>i<3. \<forall>j<3. ?p j \<le> ?p i + ?c i j"
    by (simp add: less_3_all effective_cost_def bx_via_def bx_l_def bx_u_def M_def)
  have "shortest_distance 3 ?c 0 0 (?p 0)"
    by (rule shortest_distanceI[OF pot, of 0 "[0]"]) (simp_all add: is_walk_def)
  moreover have "shortest_distance 3 ?c 0 (Suc 0) (?p (Suc 0))"
    by (rule shortest_distanceI[OF pot, of 0 "[0, Suc 0]"])
      (simp_all add: is_walk_def effective_cost_def bx_via_def bx_u_def)
  moreover have "shortest_distance 3 ?c 0 2 (?p 2)"
    by (rule shortest_distanceI[OF pot, of 0 "[0, 2]"])
      (simp_all add: is_walk_def effective_cost_def bx_via_def bx_l_def)
  ultimately have "\<forall>j<3. shortest_distance 3 ?c 0 j (?p j)"
    unfolding less_3_all by blast
  moreover have "is_walk 3 0 [0, 2] 2" by (simp add: is_walk_def)
  moreover have "walk_cost ?c [0, 2] = ?p 2"
    by (simp add: effective_cost_def bx_via_def bx_l_def)
  ultimately show ?thesis
    unfolding ans subproblem_ok_def by simp
qed

lemma bx_sub_direct:
  "subproblem_ok 3 bx_l bx_u 0 2 bx_direct (subproblem bx_oracles bx_direct)"
proof -
  let ?p = "\<lambda>j::nat. if j = 0 then 0 else if j = 1 then 1 else (2::real)"
  let ?c = "effective_cost bx_l bx_u bx_direct"
  have ans: "subproblem bx_oracles bx_direct = \<lparr>potential = ?p, tight_walk = [0, 1, 2]\<rparr>"
    by (simp add: bx_oracles_def bx_direct_def)
  have pot: "\<forall>i<3. \<forall>j<3. ?p j \<le> ?p i + ?c i j"
    by (simp add: less_3_all effective_cost_def bx_direct_def bx_l_def bx_u_def M_def)
  have "shortest_distance 3 ?c 0 0 (?p 0)"
    by (rule shortest_distanceI[OF pot, of 0 "[0]"]) (simp_all add: is_walk_def)
  moreover have "shortest_distance 3 ?c 0 (Suc 0) (?p (Suc 0))"
    by (rule shortest_distanceI[OF pot, of 0 "[0, Suc 0]"])
      (simp_all add: is_walk_def effective_cost_def bx_direct_def bx_l_def)
  moreover have "shortest_distance 3 ?c 0 2 (?p 2)"
    by (rule shortest_distanceI[OF pot, of 0 "[0, Suc 0, 2]"])
      (simp_all add: is_walk_def effective_cost_def bx_direct_def bx_l_def)
  ultimately have "\<forall>j<3. shortest_distance 3 ?c 0 j (?p j)"
    unfolding less_3_all by blast
  moreover have "is_walk 3 0 [0, 1, 2] 2" by (simp add: is_walk_def)
  moreover have "walk_cost ?c [0, 1, 2] = ?p 2"
    by (simp add: effective_cost_def bx_direct_def bx_l_def)
  ultimately show ?thesis
    unfolding ans subproblem_ok_def by simp
qed

text \<open>The three passes of the loop on this graph.\<close>

lemma bx_master_answers:
  "master bx_oracles [] = UNBOUNDED bx_via"
  "master bx_oracles [[0, 2]] = OPTIMAL bx_direct 0"
  "master bx_oracles [[0, 2], [0, Suc 0, 2]] = OPTIMAL bx_direct 23"
  by (simp_all add: bx_oracles_def)

lemma bx_sub_answers:
  "potential (subproblem bx_oracles bx_via) 2 = 9"
  "tight_walk (subproblem bx_oracles bx_via) = [0, 2]"
  "potential (subproblem bx_oracles bx_direct) 2 = 2"
  "tight_walk (subproblem bx_oracles bx_direct) = [0, Suc 0, 2]"
  by (simp_all add: bx_oracles_def bx_via_def bx_direct_def)

lemma bx_Z_sub: "Z_sub 3 bx_u bx_via 9 = 31" "Z_sub 3 bx_u bx_direct 2 = 23"
  by (simp_all add: Z_sub_def bx_upper_sum) (simp_all add: bx_via_def bx_direct_def)

lemma passes_numeral:
  "passes orc N u t tol max_iter 1 st = iterate orc N u t tol max_iter st"
  "passes orc N u t tol max_iter 2 st =
     iterate orc N u t tol max_iter (passes orc N u t tol max_iter 1 st)"
  "passes orc N u t tol max_iter 3 st =
     iterate orc N u t tol max_iter (passes orc N u t tol max_iter 2 st)"
  by (simp_all add: numeral_2_eq_2 numeral_3_eq_3)

lemma bx_pass_1:
  "passes bx_oracles 3 bx_u 2 0 10 1 seed =
     \<lparr>LB = None, UB = Some 31, cut_store = [[0, 2]], iteration = 1, phase = ITERATING\<rparr>"
  by (simp add: iterate_def finish_pass_def seed_def bx_master_answers bx_sub_answers bx_Z_sub
      lower_UB_def converged_def)

lemma bx_pass_2:
  "passes bx_oracles 3 bx_u 2 0 10 2 seed =
     \<lparr>LB = Some 0, UB = Some 23, cut_store = [[0, 2], [0, Suc 0, 2]], iteration = 2,
      phase = ITERATING\<rparr>"
proof -
  show ?thesis
    unfolding passes_numeral(2) bx_pass_1
    by (simp add: iterate_def finish_pass_def bx_master_answers bx_sub_answers bx_Z_sub
        lower_UB_def raise_LB_def converged_def)
qed

lemma bx_pass_3:
  "passes bx_oracles 3 bx_u 2 0 10 3 seed =
     \<lparr>LB = Some 23, UB = Some 23, cut_store = [[0, 2], [0, Suc 0, 2]], iteration = 3,
      phase = CONVERGED\<rparr>"
proof -
  show ?thesis
    unfolding passes_numeral(3) bx_pass_2
    by (simp add: iterate_def finish_pass_def bx_master_answers bx_sub_answers bx_Z_sub
        lower_UB_def raise_LB_def converged_def)
qed

lemma bx_collaborators: "collaborators_ok bx_oracles 3 bx_l bx_u 0 2 0 10 3"
proof -
  have 0: "answers_ok bx_oracles 3 bx_l bx_u 0 2 []"
    using master_unbounded_Nil[OF bx_flows(1)] bx_sub_via
    by (simp add: answers_ok_def bx_master_answers)
  have 1: "answers_ok bx_oracles 3 bx_l bx_u 0 2 [[0, 2]]"
    using bx_master_1 bx_sub_direct by (simp add: answers_ok_def bx_master_answers)
  have 2: "answers_ok bx_oracles 3 bx_l bx_u 0 2 [[0, 2], [0, Suc 0, 2]]"
    using bx_master_2 bx_sub_direct by (simp add: answers_ok_def bx_master_answers)
  have "k < 3 \<longleftrightarrow> k = 0 \<or> k = 1 \<or> k = 2" for k :: nat by auto
  then show ?thesis
    unfolding collaborators_ok_def using 0 1 2 bx_pass_1 bx_pass_2
    by (auto simp: seed_def)
qed

lemma bx_run:
  "run bx_oracles 3 bx_l bx_u 0 2 0 10 n = Inr (passes bx_oracles 3 bx_u 2 0 10 n seed)"
  by (simp add: run_def bx_INIT)

section \<open>The first pass, and the graph with a single arc\<close>








lemma valid_instanceD:
  assumes "valid_instance N l u s t"
  shows "s < N" and "t < N" and "s \<noteq> t"
    and "\<And>i j. i < N \<Longrightarrow> j < N \<Longrightarrow> 0 \<le> l i j"
    and "\<And>i j. i < N \<Longrightarrow> j < N \<Longrightarrow> l i j \<le> u i j"
  using assms by (simp_all add: valid_instance_def list_all_upt)



























section \<open>The value of the loop and the model of the notebook\<close>

text \<open>
  A flow with the shortest distances of its scenario is a feasible assignment of the
  model, and its objective value is the candidate objective \<open>Z_sub\<close>.
\<close>

lemma effective_cost_nat:
  assumes "valid_instance N l u s t"
  shows "\<forall>i<N. \<forall>j<N. \<exists>n::nat. effective_cost l u Y i j = real n"
proof (intro allI impI)
  fix i j assume ij: "i < N" "j < N"
  note v = valid_instanceD[OF assms]
  have "0 \<le> (if Y i j = 1 then u i j else l i j)"
    using v(4)[OF ij] v(5)[OF ij] by simp
  then obtain n where "(if Y i j = 1 then u i j else l i j) = int n"
    using nonneg_int_cases by blast
  then have "effective_cost l u Y i j = real n"
    unfolding effective_cost_def by (simp only: of_int_of_nat_eq)
  then show "\<exists>n::nat. effective_cost l u Y i j = real n" ..
qed

lemma flow_assignment_feasible:
  assumes build: "build_model N l u s t = Inr m" and V: "valid_instance N l u s t"
    and flow: "is_flow N s t Y"
    and D: "\<And>j. j < N \<Longrightarrow> shortest_distance N (effective_cost l u Y) s j (D j)"
  shows "feasible m (\<lambda>v. case v of Yvar i j \<Rightarrow> real_of_int (Y i j) | Xvar j \<Rightarrow> D j)"
    and "objective_value m (\<lambda>v. case v of Yvar i j \<Rightarrow> real_of_int (Y i j) | Xvar j \<Rightarrow> D j) =
           Z_sub N u Y (D t)"
proof -
  let ?a = "\<lambda>v. case v of Yvar i j \<Rightarrow> real_of_int (Y i j) | Xvar j \<Rightarrow> D j"
  note v = valid_instanceD[OF V]
  note nat = effective_cost_nat[OF V, of Y]
  have cost: "scenario_cost l u ?a = effective_cost l u Y"
    by (intro ext) (simp add: scenario_cost_def effective_cost_def)
  have "0 \<le> D j" if "j < N" for j
    using shortest_nonneg[OF nat D[OF that]] .
  then have dom: "domains_ok N ?a"
    using is_flow_binary[OF flow] by (auto simp: domains_ok_def)
  have xs: "?a (Xvar s) = 0"
    using shortest_unique[OF D[OF v(1)] shortest_source[OF nat v(1)]] by simp
  have dist: "distance_ok l u ?a i j" if "i < N" "j < N" for i j
  proof -
    have "D j \<le> D i + scenario_cost l u ?a i j"
      unfolding cost using shortest_triangle[OF D[OF that(1)] D[OF that(2)] that(2)] .
    then show ?thesis
      using scenario_cost_distance[OF dom that, of D l u] by (simp add: distance_ok_def)
  qed
  have "flow_conservation N s t ?a"
    using is_flow_conservation[OF flow, of "\<lambda>_. 0"]
    by (simp add: flow_conservation_def netout_def int_assignment_simps)
  then show "feasible m ?a"
    using dom xs dist by (simp add: feasible_build_model[OF build])
  show "objective_value m ?a = Z_sub N u Y (D t)"
    by (simp add: objective_build_model[OF build] upper_cost_def Z_sub_def upper_sum_def)
qed

text \<open>
  The objective value of a feasible assignment of the model is at least the regret of
  the flow it selects.
\<close>

lemma feasible_regret:
  assumes build: "build_model N l u s t = Inr m" and V: "valid_instance N l u s t"
    and feas: "feasible m a"
  shows "\<exists>Y d. is_flow N s t Y \<and> shortest_distance N (effective_cost l u Y) s t d \<and>
               Z_sub N u Y d \<le> objective_value m a"
proof -
  note v = valid_instanceD[OF V]
  define Y :: scenario where "Y i j = (if a (Yvar i j) = 1 then 1 else 0)" for i j
  have dom: "domains_ok N a" and fl: "flow_conservation N s t a"
    using feas by (auto simp: feasible_build_model[OF build])
  have val: "a (Yvar i j) = real_of_int (Y i j)" if "i < N" "j < N" for i j
    using domains_ok_binary[OF dom that] by (auto simp: Y_def)
  have cost: "scenario_cost l u a = effective_cost l u Y"
    by (intro ext) (simp add: scenario_cost_def effective_cost_def Y_def)
  have net: "real_of_int (netout_int N Y j) = netout N a j" if "j < N" for j
    unfolding netout_int_assignment[of N Y "\<lambda>_. 0" j, symmetric] netout_def
    using that by (simp add: int_assignment_simps val)
  have "is_flow N s t Y"
  proof -
    have "netout_int N Y s = 1"
    proof -
      have "real_of_int (netout_int N Y s) = real_of_int 1"
        using net[OF v(1)] fl by (simp add: flow_conservation_def)
      then show ?thesis by (simp only: of_int_eq_iff)
    qed
    moreover have "netout_int N Y t = - 1"
    proof -
      have "real_of_int (netout_int N Y t) = real_of_int (- 1)"
        using net[OF v(2)] fl by (simp add: flow_conservation_def)
      then show ?thesis by (simp only: of_int_eq_iff)
    qed
    moreover have "netout_int N Y j = 0" if "j < N" "j \<noteq> s" "j \<noteq> t" for j
    proof -
      have "real_of_int (netout_int N Y j) = real_of_int 0"
        using net[OF that(1)] fl that by (simp add: flow_conservation_def)
      then show ?thesis by (simp only: of_int_eq_iff)
    qed
    ultimately show ?thesis
      by (auto simp: is_flow_def list_all_upt Y_def)
  qed
  moreover obtain d where d: "shortest_distance N (effective_cost l u Y) s t d"
    using exists_shortest[OF effective_cost_nat[OF V, of Y] v(1,2)] by blast
  moreover have "Z_sub N u Y d \<le> objective_value m a"
  proof -
    obtain w where w: "is_walk N s w t" "walk_cost (effective_cost l u Y) w = d"
      using d unfolding shortest_distance_def by blast
    have "a (Xvar t) \<le> d"
      using feasible_walk_bound[OF build feas w(1)] w(2) by (simp add: cost)
    moreover have "upper_cost N u a = upper_sum N u Y"
      by (simp add: upper_cost_def upper_sum_def val)
    ultimately show ?thesis
      by (simp add: objective_build_model[OF build] Z_sub_def)
  qed
  ultimately show ?thesis by blast
qed

text \<open>A state is \<open>CONVERGED\<close> only when its bounds meet the stopping rule.\<close>

lemma iterate_converged:
  assumes "phase st = CONVERGED \<longrightarrow> converged tol (LB st) (UB st)"
  shows "phase (iterate orc N u t tol max_iter st) = CONVERGED \<longrightarrow>
         converged tol (LB (iterate orc N u t tol max_iter st))
           (UB (iterate orc N u t tol max_iter st))"
proof (cases rule: iterate_cases[of st orc N u t tol max_iter])
  case idle
  then show ?thesis using assms by simp
next
  case infeasible
  then show ?thesis by simp
next
  case (optimal Y Z)
  then show ?thesis
    by (simp add: finish_pass_fields finish_pass_phase)
next
  case (unbounded Y)
  then show ?thesis
    by (simp add: finish_pass_fields finish_pass_phase)
qed

lemma passes_converged:
  "phase (passes orc N u t tol max_iter n seed) = CONVERGED \<longrightarrow>
   converged tol (LB (passes orc N u t tol max_iter n seed))
     (UB (passes orc N u t tol max_iter n seed))"
proof (induction n)
  case 0
  show ?case by (simp add: seed_def)
next
  case (Suc n)
  show ?case unfolding passes.simps by (rule iterate_converged[OF Suc.IH])
qed

text \<open>
  The certificate of the loop. When the loop has converged with tolerance 0, with
  collaborators that kept their contracts, \<open>LB = UB\<close> is the optimal objective value of
  the single-level model that the notebook builds.
\<close>

lemma converged_value_optimal:
  assumes r: "run orc N l u s t 0 max_iter n = Inr st" and c: "phase st = CONVERGED"
    and ok: "collaborators_ok orc N l u s t 0 max_iter n"
    and build: "build_model N l u s t = Inr m"
  shows "\<exists>a b. LB st = Some b \<and> UB st = Some b \<and> optimal m a \<and> objective_value m a = b"
proof -
  have init: "INIT N l u s t = Inr seed" and st: "st = passes orc N u t 0 max_iter n seed"
    using run_Inr[OF r] .
  have V: "valid_instance N l u s t" using INIT_Inr(2)[OF init] .
  note v = valid_instanceD[OF V]
  have "converged 0 (LB st) (UB st)"
    using passes_converged[of orc N u t 0 max_iter n] c st by simp
  then obtain a0 b where lb: "LB st = Some a0" and ub: "UB st = Some b" and le: "b \<le> a0"
    by (auto simp: converged_def split: option.splits)
  note inv = passes_invariant[OF v(2) ok, folded st]
  have below: "a0 \<le> Z_sub N u Y d"
    if "is_flow N s t Y" "shortest_distance N (effective_cost l u Y) s t d" for Y d
    using inv lb that by blast
  obtain Y d where flow: "is_flow N s t Y"
    and d: "shortest_distance N (effective_cost l u Y) s t d" and b: "b = Z_sub N u Y d"
    using inv ub by blast
  have eq: "a0 = b" using below[OF flow d] b le by simp
  obtain D where D: "\<And>j. j < N \<Longrightarrow> shortest_distance N (effective_cost l u Y) s j (D j)"
    using exists_shortest[OF effective_cost_nat[OF V, of Y] v(1)] by metis
  have Dt: "D t = d" using shortest_unique[OF D[OF v(2)] d] .
  let ?a = "\<lambda>v. case v of Yvar i j \<Rightarrow> real_of_int (Y i j) | Xvar j \<Rightarrow> D j"
  note fa = flow_assignment_feasible[OF build V flow D]
  have "objective_value m ?a \<le> objective_value m a'" if fe: "feasible m a'" for a'
  proof -
    obtain Y' d' where "is_flow N s t Y'" "shortest_distance N (effective_cost l u Y') s t d'"
      and "Z_sub N u Y' d' \<le> objective_value m a'"
      using feasible_regret[OF build V fe] by blast
    then show ?thesis using below[of Y' d'] fa(2) Dt b eq by simp
  qed
  then have "optimal m ?a" using optimalI[OF build fa(1)] by blast
  moreover have "objective_value m ?a = b" using fa(2) Dt b by simp
  ultimately show ?thesis using lb ub eq by blast
qed

text \<open>On the three-node graph: the value 23 of the loop is the optimum of the model.\<close>

lemma bx_value_optimal:
  "\<exists>m a. build_model 3 bx_l bx_u 0 2 = Inr m \<and> optimal m a \<and> objective_value m a = 23"
proof -
  obtain m where build: "build_model 3 bx_l bx_u 0 2 = Inr m"
    using build_model_succeeds[of 0 3 2 bx_l bx_u] by auto
  have r: "run bx_oracles 3 bx_l bx_u 0 2 0 10 3 =
             Inr (passes bx_oracles 3 bx_u 2 0 10 3 seed)"
    by (rule bx_run)
  have "phase (passes bx_oracles 3 bx_u 2 0 10 3 seed) = CONVERGED"
    by (simp add: bx_pass_3)
  from converged_value_optimal[OF r this bx_collaborators build] show ?thesis
    using build by (auto simp: bx_pass_3)
qed

text \<open>
  Witness for claim C6: the loop on the three-node graph. After the first pass
  \<open>LB = -\<infinity>\<close> and \<open>UB = 31\<close>; after the second \<open>LB = 0\<close> and \<open>UB = 23\<close>; after the third
  \<open>LB = UB = 23\<close>, the regret of the path \<open>0 \<rightarrow> 2\<close> and the optimal objective value
  of the model that the notebook builds for this graph.
\<close>

theorem bounds_monotone_witness:
  "collaborators_ok bx_oracles 3 bx_l bx_u 0 2 0 10 3 \<and>
   run bx_oracles 3 bx_l bx_u 0 2 0 10 1 =
     Inr \<lparr>LB = None, UB = Some 31, cut_store = [[0, 2]], iteration = 1, phase = ITERATING\<rparr> \<and>
   run bx_oracles 3 bx_l bx_u 0 2 0 10 2 =
     Inr \<lparr>LB = Some 0, UB = Some 23, cut_store = [[0, 2], [0, 1, 2]], iteration = 2,
          phase = ITERATING\<rparr> \<and>
   run bx_oracles 3 bx_l bx_u 0 2 0 10 3 =
     Inr \<lparr>LB = Some 23, UB = Some 23, cut_store = [[0, 2], [0, 1, 2]], iteration = 3,
          phase = CONVERGED\<rparr> \<and>
   le_LB None (Some 0) \<and> le_UB (Some 23) (Some 31) \<and>
   le_LB (Some 0) (Some 23) \<and> le_UB (Some 23) (Some 23) \<and> (23::real) \<le> 23 \<and> (0::real) \<le> 23 \<and>
   (\<exists>m a. build_model 3 bx_l bx_u 0 2 = Inr m \<and> optimal m a \<and> objective_value m a = 23)"
proof -
  have r1: "run bx_oracles 3 bx_l bx_u 0 2 0 10 1 =
     Inr \<lparr>LB = None, UB = Some 31, cut_store = [[0, 2]], iteration = 1, phase = ITERATING\<rparr>"
    by (simp only: bx_run bx_pass_1)
  have r2: "run bx_oracles 3 bx_l bx_u 0 2 0 10 2 =
     Inr \<lparr>LB = Some 0, UB = Some 23, cut_store = [[0, 2], [0, Suc 0, 2]], iteration = 2,
          phase = ITERATING\<rparr>"
    by (simp only: bx_run bx_pass_2)
  have r3: "run bx_oracles 3 bx_l bx_u 0 2 0 10 3 =
     Inr \<lparr>LB = Some 23, UB = Some 23, cut_store = [[0, 2], [0, Suc 0, 2]], iteration = 3,
          phase = CONVERGED\<rparr>"
    by (simp only: bx_run bx_pass_3)
  have s2: "Suc 1 = 2" and s3: "Suc 2 = 3" by simp_all
  have ok2: "collaborators_ok bx_oracles 3 bx_l bx_u 0 2 0 10 (Suc 1)"
    using collaborators_ok_Suc[of bx_oracles 3 bx_l bx_u 0 2 0 10 2] bx_collaborators
    by (simp only: s2 s3)
  have ok3: "collaborators_ok bx_oracles 3 bx_l bx_u 0 2 0 10 (Suc 2)"
    using bx_collaborators by (simp only: s3)
  have "le_LB None (Some 0) \<and> le_UB (Some 23) (Some 31)"
    using bounds_monotone [OF r1 _ ok2] r2 by (simp only: s2) simp
  moreover have "le_LB (Some 0) (Some 23) \<and> le_UB (Some 23) (Some 23) \<and> (23::real) \<le> 23"
    using bounds_monotone [OF r2 _ ok3] r3 by (simp only: s3) simp
  ultimately show ?thesis
    using bx_collaborators r1 r2 r3 bx_value_optimal by simp
qed

end
